theory Spec2Isabelle
  imports Main "HOL-Library.AList"
begin

section \<open>Data model of the Quantum Tic-Tac-Toe engine\<close>

text \<open>
  The engine is the class \<open>QuantumTicTacToeGame\<close> of
  \<open>townService/src/town/games/QuantumTicTacToeGame.ts\<close>. Its fields become a record,
  its methods functions that take the game and return the game they leave behind,
  together with the \<open>InvalidParametersError\<close> they throw, if any. A method that throws
  after it has assigned to a field returns the game with that assignment made.

  Player ids are strings; a slot of the state is \<open>undefined\<close> (\<open>None\<close>) or holds an id.
  The source tests slots for truthiness (\<open>!this.state.x\<close>), which the empty string
  fails as \<open>undefined\<close> does; \<open>truthy\<close> keeps that. Rows and columns are integers (the
  type \<open>0 | 1 | 2\<close> of the source is not enforced at run time, which is why the range
  is validated). Scores and the move counter only ever hold lengths and sums of
  increments, so they are natural numbers.
\<close>

datatype BoardID = A | B | C

datatype PlayerPiece = PieceX | PieceO

datatype GameStatus = WAITING_TO_START | IN_PROGRESS | OVER

type_synonym PlayerID = string

datatype error =
    PLAYER_ALREADY_IN_GAME_MESSAGE
  | GAME_FULL_MESSAGE
  | PLAYER_NOT_IN_GAME_MESSAGE
  | GAME_NOT_IN_PROGRESS_MESSAGE
  | MOVE_NOT_YOUR_TURN_MESSAGE
  | BOARD_POSITION_NOT_VALID_MESSAGE
  | BOARD_POSITION_NOT_EMPTY_MESSAGE

record TicTacToeMove =
  gamePiece :: PlayerPiece
  row :: int
  col :: int

record QuantumTicTacToeMove = TicTacToeMove +
  board :: BoardID

record GameMove =
  playerID :: PlayerID
  gameID :: string
  move :: QuantumTicTacToeMove

record 'm WinnableGameState =
  moves :: "'m list"
  status :: GameStatus
  x_id :: "PlayerID option"
  o_id :: "PlayerID option"
  winner :: "PlayerID option"

type_synonym TicTacToeGameState = "TicTacToeMove WinnableGameState"

type_synonym grid = "bool list list"

record QuantumTicTacToeGameState = "QuantumTicTacToeMove WinnableGameState" +
  xScore :: nat
  oScore :: nat
  publiclyVisible :: "BoardID \<Rightarrow> grid"

record GameResult =
  result_gameID :: string
  scores :: "(PlayerID \<times> nat) list"

text \<open>
  The game object. \<open>state\<close>, \<open>result\<close> and \<open>id\<close> are inherited from \<open>Game\<close>; the
  private fields \<open>_games\<close>, \<open>_xScore\<close>, \<open>_oScore\<close>, \<open>_moveCount\<close>, \<open>_privateBoards\<close>
  and \<open>_boardWinners\<close> lose their underscore (the two scores get a prime, since the
  public state has fields of the same name). The pieces \<open>'X'\<close> and \<open>'O'\<close> are the
  constructors \<open>PieceX\<close> and \<open>PieceO\<close>, the slots \<open>x\<close> and \<open>o\<close> the fields \<open>x_id\<close> and
  \<open>o_id\<close>. Of each of the three \<open>TicTacToeGame\<close>
  objects the engine reads and writes the \<open>state\<close> only, so \<open>games\<close> holds that.
\<close>

record QuantumTicTacToeGame =
  id_game :: string
  state :: QuantumTicTacToeGameState
  result :: "GameResult option"
  games :: "BoardID \<Rightarrow> TicTacToeGameState"
  xScore' :: nat
  oScore' :: nat
  moveCount :: nat
  privateBoards :: "PlayerPiece \<Rightarrow> BoardID \<Rightarrow> grid"
  boardWinners :: "BoardID \<Rightarrow> PlayerPiece option"

definition truthy :: "PlayerID option \<Rightarrow> bool" where
  "truthy v = (case v of None \<Rightarrow> False | Some s \<Rightarrow> s \<noteq> [])"

definition BOARD_IDS :: "BoardID list" where
  "BOARD_IDS = [A, B, C]"

definition emptyGrid :: grid where
  "emptyGrid = [[False, False, False], [False, False, False], [False, False, False]]"

text \<open>Copies are identities on values; they are kept to follow the source.\<close>

definition cloneGrid :: "grid \<Rightarrow> grid" where
  "cloneGrid g = map (\<lambda>r. r) g"

definition createEmptyVisibility :: "BoardID \<Rightarrow> grid" where
  "createEmptyVisibility = (\<lambda>b. emptyGrid)"

definition cloneVisibility :: "(BoardID \<Rightarrow> grid) \<Rightarrow> (BoardID \<Rightarrow> grid)" where
  "cloneVisibility visibility = (\<lambda>b. cloneGrid (visibility b))"

definition createEmptyPrivateBoards :: "PlayerPiece \<Rightarrow> BoardID \<Rightarrow> grid" where
  "createEmptyPrivateBoards = (\<lambda>p b. emptyGrid)"

text \<open>
  \<open>grid[r][c]\<close> read and \<open>grid[r][c] = true\<close> written. The engine builds its grids with
  \<open>emptyGrid\<close> and indexes them with rows and columns it has validated, or with the
  constants 0, 1 and 2, so on a 3 by 3 grid no access is out of range; that every grid of
  a reachable game is 3 by 3 is the invariant \<open>invShape\<close> below.
\<close>

definition cell :: "grid \<Rightarrow> int \<Rightarrow> int \<Rightarrow> bool" where
  "cell g r c = g ! nat r ! nat c"

definition setCell :: "grid \<Rightarrow> int \<Rightarrow> int \<Rightarrow> grid" where
  "setCell g r c = g[nat r := (g ! nat r)[nat c := True]]"

subsection \<open>The sub-board engine\<close>

text \<open>
  Modelled from the spec: the constructor of \<open>TicTacToeGame\<close>, whose file is not
  among the sources. A new sub-board has an empty move list, no players and no winner
  (spec 4.1: it tracks one board's move list and win/over status).
\<close>

definition newTicTacToeGame :: TicTacToeGameState where
  "newTicTacToeGame =
     \<lparr>moves = [], status = WAITING_TO_START, x_id = None, o_id = None, winner = None\<rparr>"

definition createSubGames :: "BoardID \<Rightarrow> TicTacToeGameState" where
  "createSubGames = (\<lambda>b. newTicTacToeGame)"

text \<open>
  \<open>TicTacToeGame.join\<close> and \<open>TicTacToeGame.leave\<close> are not among the sources either.
  The engine's \<open>_join\<close> and \<open>_leave\<close> take them as parameters: a sub-board operation
  maps a player and a sub-board to the sub-board it leaves behind and the error it
  throws, if any.
\<close>

type_synonym subOp = "PlayerID \<Rightarrow> TicTacToeGameState \<Rightarrow> TicTacToeGameState \<times> error option"

text \<open>
  Modelled from the spec: \<open>TicTacToeGame.join\<close> and \<open>TicTacToeGame.leave\<close>, for the
  closed examples below. Spec 4.2: join "registers the player" with the sub-board
  (here: in its first free slot, failing as the engine's own join does), leave
  "propagates" to it and may fail; spec 4.1: the move list of a sub-board changes
  through \<open>recordMove\<close> only.
\<close>

definition TicTacToeGame_join :: subOp where
  "TicTacToeGame_join p t =
     (if x_id t = Some p \<or> o_id t = Some p then (t, Some PLAYER_ALREADY_IN_GAME_MESSAGE)
      else if \<not> truthy (x_id t) then (t\<lparr>x_id := Some p\<rparr>, None)
      else if \<not> truthy (o_id t) then (t\<lparr>o_id := Some p, status := IN_PROGRESS\<rparr>, None)
      else (t, Some GAME_FULL_MESSAGE))"

definition TicTacToeGame_leave :: subOp where
  "TicTacToeGame_leave p t =
     (if x_id t \<noteq> Some p \<and> o_id t \<noteq> Some p then (t, Some PLAYER_NOT_IN_GAME_MESSAGE)
      else (t\<lparr>status := OVER, winner := (if x_id t = Some p then o_id t else x_id t)\<rparr>, None))"

text \<open>
  What some theorems on reachable games ask of the two parameters: a sub-board's join
  and leave do not touch its move list (spec 4.1: it changes through \<open>recordMove\<close>
  only). The two operations modelled above satisfy it.
\<close>

definition keepsMoves :: "subOp \<Rightarrow> bool" where
  "keepsMoves f = (\<forall>p t. moves (fst (f p t)) = moves t)"

section \<open>The engine\<close>

definition newQuantumTicTacToeGame :: "string \<Rightarrow> QuantumTicTacToeGame" where
  "newQuantumTicTacToeGame gid =
     \<lparr>id_game = gid,
      state = \<lparr>moves = [], status = WAITING_TO_START, x_id = None, o_id = None,
               winner = None, xScore = 0, oScore = 0,
               publiclyVisible = createEmptyVisibility\<rparr>,
      result = None,
      games = createSubGames,
      xScore' = 0,
      oScore' = 0,
      moveCount = 0,
      privateBoards = createEmptyPrivateBoards,
      boardWinners = Map.empty\<rparr>"

definition resetGameState :: "QuantumTicTacToeGame \<Rightarrow> QuantumTicTacToeGame" where
  "resetGameState g =
     g\<lparr>games := createSubGames,
       privateBoards := createEmptyPrivateBoards,
       boardWinners := Map.empty,
       xScore' := 0,
       oScore' := 0,
       moveCount := 0,
       result := None,
       state := \<lparr>moves = [], status = WAITING_TO_START, x_id = None, o_id = None,
                 winner = None, xScore = 0, oScore = 0,
                 publiclyVisible = createEmptyVisibility\<rparr>\<rparr>"

text \<open>
  \<open>BOARD_IDS.forEach(board => this._games[board].join(player))\<close>: the first sub-board
  that throws ends the loop, and the exception leaves \<open>_join\<close>.
\<close>

fun forEachJoin ::
  "subOp \<Rightarrow> PlayerID \<Rightarrow> BoardID list \<Rightarrow> (BoardID \<Rightarrow> TicTacToeGameState)
     \<Rightarrow> (BoardID \<Rightarrow> TicTacToeGameState) \<times> error option" where
  "forEachJoin tjoin p [] gs = (gs, None)"
| "forEachJoin tjoin p (b # bs) gs =
     (case tjoin p (gs b) of
        (t, Some e) \<Rightarrow> (gs(b := t), Some e)
      | (t, None) \<Rightarrow> forEachJoin tjoin p bs (gs(b := t)))"

text \<open>The same loop in \<open>_leave\<close>, where each call sits in a \<open>try\<close> with an empty \<open>catch\<close>.\<close>

fun forEachLeave ::
  "subOp \<Rightarrow> PlayerID \<Rightarrow> BoardID list \<Rightarrow> (BoardID \<Rightarrow> TicTacToeGameState)
     \<Rightarrow> (BoardID \<Rightarrow> TicTacToeGameState)" where
  "forEachLeave tleave p [] gs = gs"
| "forEachLeave tleave p (b # bs) gs = forEachLeave tleave p bs (gs(b := fst (tleave p (gs b))))"

text \<open>
  \<open>join\<close> and \<open>leave\<close> are the methods \<open>_join\<close> and \<open>_leave\<close> of the class. The public
  \<open>join\<close> and \<open>leave\<close> it inherits from \<open>Game\<close> (not among the sources) call them and keep
  the list of players, which the engine never reads.
\<close>

definition join ::
  "subOp \<Rightarrow> PlayerID \<Rightarrow> QuantumTicTacToeGame \<Rightarrow> QuantumTicTacToeGame \<times> error option" where
  "join tjoin p g =
     (if x_id (state g) = Some p \<or> o_id (state g) = Some p
      then (g, Some PLAYER_ALREADY_IN_GAME_MESSAGE)
      else if \<not> truthy (x_id (state g)) then
        (let g1 = g\<lparr>state := (state g)\<lparr>x_id := Some p\<rparr>\<rparr>;
             (gs, err) = forEachJoin tjoin p BOARD_IDS (games g1)
         in (g1\<lparr>games := gs\<rparr>, err))
      else if \<not> truthy (o_id (state g)) then
        (let g1 = g\<lparr>state := (state g)\<lparr>o_id := Some p, status := IN_PROGRESS, winner := None\<rparr>\<rparr>;
             (gs, err) = forEachJoin tjoin p BOARD_IDS (games g1);
             g2 = g1\<lparr>games := gs\<rparr>
         in case err of
              Some e \<Rightarrow> (g2, Some e)
            | None \<Rightarrow> (g2\<lparr>moveCount := length (moves (state g2)), result := None\<rparr>, None))
      else (g, Some GAME_FULL_MESSAGE))"

definition leave ::
  "subOp \<Rightarrow> PlayerID \<Rightarrow> QuantumTicTacToeGame \<Rightarrow> QuantumTicTacToeGame \<times> error option" where
  "leave tleave p g =
     (let isX = (x_id (state g) = Some p); isO = (o_id (state g) = Some p) in
      if \<not> isX \<and> \<not> isO then (g, Some PLAYER_NOT_IN_GAME_MESSAGE)
      else
        (let g1 = g\<lparr>games := forEachLeave tleave p BOARD_IDS (games g)\<rparr> in
         if truthy (x_id (state g1)) \<and> truthy (o_id (state g1)) then
           (let winnerID = (if isX then o_id (state g1) else x_id (state g1)) in
            (g1\<lparr>state := (state g1)
                  \<lparr>status := OVER,
                   winner := winnerID,
                   x_id := (if isX then None else x_id (state g1)),
                   o_id := (if isO then None else o_id (state g1))\<rparr>\<rparr>, None))
         else (resetGameState g1, None)))"

definition validateMove :: "GameMove \<Rightarrow> QuantumTicTacToeGame \<Rightarrow> error + PlayerPiece" where
  "validateMove gm g =
     (if status (state g) \<noteq> IN_PROGRESS then Inl GAME_NOT_IN_PROGRESS_MESSAGE
      else if Some (playerID gm) \<noteq> x_id (state g) \<and> Some (playerID gm) \<noteq> o_id (state g)
      then Inl PLAYER_NOT_IN_GAME_MESSAGE
      else
        (let piece = (if Some (playerID gm) = x_id (state g) then PieceX else PieceO) in
         if (piece = PieceX \<and> moveCount g mod 2 = 1) \<or> (piece = PieceO \<and> moveCount g mod 2 = 0)
         then Inl MOVE_NOT_YOUR_TURN_MESSAGE
         else if row (move gm) < 0 \<or> row (move gm) > 2 \<or> col (move gm) < 0 \<or> col (move gm) > 2
         then Inl BOARD_POSITION_NOT_VALID_MESSAGE
         else if boardWinners g (board (move gm)) \<noteq> None
         then Inl BOARD_POSITION_NOT_VALID_MESSAGE
         else if cell (privateBoards g piece (board (move gm))) (row (move gm)) (col (move gm))
         then Inl BOARD_POSITION_NOT_EMPTY_MESSAGE
         else Inr piece))"

definition appendMoveToSubGame ::
  "BoardID \<Rightarrow> TicTacToeMove \<Rightarrow> QuantumTicTacToeGame \<Rightarrow> QuantumTicTacToeGame" where
  "appendMoveToSubGame b m g =
     (let boardState = games g b;
          updatedMoves = moves boardState @ [m]
      in g\<lparr>games := (games g)
            (b := boardState\<lparr>moves := updatedMoves, status := IN_PROGRESS,
                             x_id := x_id (state g), o_id := o_id (state g)\<rparr>)\<rparr>)"

definition markBoardAsWon ::
  "BoardID \<Rightarrow> PlayerID option \<Rightarrow> QuantumTicTacToeGame \<Rightarrow> QuantumTicTacToeGame" where
  "markBoardAsWon b winnerID g =
     g\<lparr>games := (games g)(b := (games g b)\<lparr>status := OVER, winner := winnerID\<rparr>)\<rparr>"

definition hasThreeInARow :: "grid \<Rightarrow> bool" where
  "hasThreeInARow g =
     ((\<exists>i \<in> set [0, 1, 2].
         (cell g i 0 \<and> cell g i 1 \<and> cell g i 2) \<or> (cell g 0 i \<and> cell g 1 i \<and> cell g 2 i))
      \<or> (cell g 0 0 \<and> cell g 1 1 \<and> cell g 2 2)
      \<or> (cell g 0 2 \<and> cell g 1 1 \<and> cell g 2 0))"

text \<open>One turn of the loop of \<open>_checkForWins\<close>; the flag is \<open>scoreChanged\<close>.\<close>

definition checkBoard ::
  "BoardID \<Rightarrow> QuantumTicTacToeGame \<times> bool \<Rightarrow> QuantumTicTacToeGame \<times> bool" where
  "checkBoard b gc =
     (let g = fst gc; scoreChanged = snd gc in
      if boardWinners g b \<noteq> None then (g, scoreChanged)
      else if hasThreeInARow (privateBoards g PieceX b) then
        (markBoardAsWon b (x_id (state g))
           (g\<lparr>boardWinners := (boardWinners g)(b \<mapsto> PieceX), xScore' := xScore' g + 1\<rparr>), True)
      else if hasThreeInARow (privateBoards g PieceO b) then
        (markBoardAsWon b (o_id (state g))
           (g\<lparr>boardWinners := (boardWinners g)(b \<mapsto> PieceO), oScore' := oScore' g + 1\<rparr>), True)
      else (g, scoreChanged))"

definition checkForWins :: "QuantumTicTacToeGame \<Rightarrow> QuantumTicTacToeGame" where
  "checkForWins g =
     (let (g1, scoreChanged) = fold checkBoard BOARD_IDS (g, False) in
      if scoreChanged
      then g1\<lparr>state := (state g1)\<lparr>xScore := xScore' g1, oScore := oScore' g1\<rparr>\<rparr>
      else g1)"

definition checkForGameEnding :: "QuantumTicTacToeGame \<Rightarrow> QuantumTicTacToeGame" where
  "checkForGameEnding g =
     (if status (state g) = OVER then g
      else
        (let hasAvailableMove =
               list_ex (\<lambda>b. if boardWinners g b \<noteq> None then False
                             else length (moves (games g b)) < 9) BOARD_IDS
         in if hasAvailableMove then g
            else
              (let xp = x_id (state g); op' = o_id (state g);
                   w = (if xScore' g > oScore' g then xp
                        else if oScore' g > xScore' g then op'
                        else None);
                   g1 = g\<lparr>state := (state g)\<lparr>status := OVER, winner := w\<rparr>\<rparr>;
                   sc0 = (if truthy xp then AList.update (the xp) (xScore' g) [] else []);
                   sc = (if truthy op' then AList.update (the op') (oScore' g) sc0 else sc0)
               in if length sc > 0
                  then g1\<lparr>result := Some \<lparr>result_gameID = id_game g, scores = sc\<rparr>\<rparr>
                  else g1)))"

text \<open>
  \<open>applyMove\<close> up to the assignment to \<open>this.state\<close> (lines 228 to 261 of the source):
  validation, the look-up of the cell in the sub-board's move list, the two branches,
  and the append to the move log. Both \<open>throw\<close>s precede every assignment.
\<close>

definition placeMove ::
  "GameMove \<Rightarrow> QuantumTicTacToeGame \<Rightarrow> QuantumTicTacToeGame \<times> (error + PlayerPiece)" where
  "placeMove gm g =
     (case validateMove gm g of
        Inl e \<Rightarrow> (g, Inl e)
      | Inr piece \<Rightarrow>
         (let b = board (move gm); r = row (move gm); c = col (move gm);
              existingOccupant =
                find (\<lambda>eachMove. row eachMove = r \<and> col eachMove = c) (moves (games g b))
          in case
               (case existingOccupant of
                  None \<Rightarrow>
                    Inr (appendMoveToSubGame b \<lparr>gamePiece = piece, row = r, col = c\<rparr>
                           (g\<lparr>privateBoards := (privateBoards g)
                                (piece := (privateBoards g piece)
                                   (b := setCell (privateBoards g piece b) r c))\<rparr>),
                         publiclyVisible (state g))
                | Some occupant \<Rightarrow>
                    if gamePiece occupant = piece then Inl BOARD_POSITION_NOT_EMPTY_MESSAGE
                    else if \<not> cell (publiclyVisible (state g) b) r c
                    then Inr (g, (cloneVisibility (publiclyVisible (state g)))
                                   (b := setCell (cloneVisibility (publiclyVisible (state g)) b) r c))
                    else Inr (g, publiclyVisible (state g)))
             of
               Inl e \<Rightarrow> (g, Inl e)
             | Inr (g1, newVisibility) \<Rightarrow>
                 (let newMove = \<lparr>gamePiece = piece, row = r, col = c, board = b\<rparr>;
                      updatedMoves = moves (state g1) @ [newMove]
                  in (g1\<lparr>moveCount := length updatedMoves,
                          state := (state g1)\<lparr>moves := updatedMoves,
                                               publiclyVisible := newVisibility\<rparr>\<rparr>,
                      Inr piece))))"

definition applyMove ::
  "GameMove \<Rightarrow> QuantumTicTacToeGame \<Rightarrow> QuantumTicTacToeGame \<times> error option" where
  "applyMove gm g =
     (case placeMove gm g of
        (g1, Inl e) \<Rightarrow> (g1, Some e)
      | (g1, Inr piece) \<Rightarrow> (checkForGameEnding (checkForWins g1), None))"

subsection \<open>Runs of the engine\<close>

datatype command = Join PlayerID | Leave PlayerID | Move GameMove

definition exec ::
  "subOp \<Rightarrow> subOp \<Rightarrow> command \<Rightarrow> QuantumTicTacToeGame \<Rightarrow> QuantumTicTacToeGame \<times> error option" where
  "exec tjoin tleave cmd g =
     (case cmd of Join p \<Rightarrow> join tjoin p g | Leave p \<Rightarrow> leave tleave p g | Move gm \<Rightarrow> applyMove gm g)"

definition run ::
  "subOp \<Rightarrow> subOp \<Rightarrow> command list \<Rightarrow> QuantumTicTacToeGame \<Rightarrow> QuantumTicTacToeGame" where
  "run tjoin tleave cmds g = fold (\<lambda>cmd s. fst (exec tjoin tleave cmd s)) cmds g"

inductive reachable :: "subOp \<Rightarrow> subOp \<Rightarrow> QuantumTicTacToeGame \<Rightarrow> bool"
  for tjoin :: subOp and tleave :: subOp where
  reachable_new: "reachable tjoin tleave (newQuantumTicTacToeGame gid)"
| reachable_exec: "reachable tjoin tleave g \<Longrightarrow> reachable tjoin tleave (fst (exec tjoin tleave cmd g))"

section \<open>The client's projection\<close>




text \<open>
  The getters \<open>x\<close> and \<open>o\<close> look the slot's id up among the occupants of the area, and
  \<open>gamePiece\<close> compares the id found with our own; \<open>isPlayer\<close> reads the player list of
  the model. Occupants and players are lists of ids, which is all that is read of them.
\<close>

definition controllerOf :: "PlayerID list \<Rightarrow> PlayerID option \<Rightarrow> PlayerID option" where
  "controllerOf occupants slot =
     (if truthy slot then find (\<lambda>eachOccupant. Some eachOccupant = slot) occupants else None)"

datatype clientError = PLAYER_NOT_IN_GAME_ERROR

definition gamePieceOf ::
  "PlayerID list \<Rightarrow> PlayerID \<Rightarrow> QuantumTicTacToeGameState \<Rightarrow> clientError + PlayerPiece" where
  "gamePieceOf occupants ourPlayer st =
     (if controllerOf occupants (x_id st) = Some ourPlayer then Inr PieceX
      else if controllerOf occupants (o_id st) = Some ourPlayer then Inr PieceO
      else Inl PLAYER_NOT_IN_GAME_ERROR)"

definition ourPieceOf ::
  "PlayerID list \<Rightarrow> PlayerID list \<Rightarrow> PlayerID \<Rightarrow> QuantumTicTacToeGameState
     \<Rightarrow> PlayerPiece option" where
  "ourPieceOf players occupants ourPlayer st =
     (if ourPlayer \<in> set players
      then (case gamePieceOf occupants ourPlayer st of Inr p \<Rightarrow> Some p | Inl e \<Rightarrow> None)
      else None)"





section \<open>Notions of the specification\<close>

text \<open>
  A row or column of a board; the occupant the engine finds for a cell in a sub-board's
  move list (\<open>existingOccupant\<close> in \<open>applyMove\<close>); a piece having played a cell, by the
  authoritative move log; the first move of the log on a cell; the piece of the slot a
  mover holds (X when the mover holds both); the other piece; the identity in a piece's
  slot; the number of boards a piece has won.
\<close>

definition inRange :: "int \<Rightarrow> bool" where
  "inRange r = (0 \<le> r \<and> r \<le> 2)"

definition existingOccupant ::
  "QuantumTicTacToeGame \<Rightarrow> BoardID \<Rightarrow> int \<Rightarrow> int \<Rightarrow> TicTacToeMove option" where
  "existingOccupant g b r c =
     find (\<lambda>eachMove. row eachMove = r \<and> col eachMove = c) (moves (games g b))"

definition played :: "QuantumTicTacToeGame \<Rightarrow> PlayerPiece \<Rightarrow> BoardID \<Rightarrow> int \<Rightarrow> int \<Rightarrow> bool" where
  "played g p b r c =
     list_ex (\<lambda>m. gamePiece m = p \<and> board m = b \<and> row m = r \<and> col m = c) (moves (state g))"


definition moverPiece :: "GameMove \<Rightarrow> QuantumTicTacToeGame \<Rightarrow> PlayerPiece" where
  "moverPiece gm g = (if x_id (state g) = Some (playerID gm) then PieceX else PieceO)"

definition otherPiece :: "PlayerPiece \<Rightarrow> PlayerPiece" where
  "otherPiece p = (case p of PieceX \<Rightarrow> PieceO | PieceO \<Rightarrow> PieceX)"

definition slotOf :: "PlayerPiece \<Rightarrow> QuantumTicTacToeGame \<Rightarrow> PlayerID option" where
  "slotOf p g = (case p of PieceX \<Rightarrow> x_id (state g) | PieceO \<Rightarrow> o_id (state g))"

definition wonBy :: "QuantumTicTacToeGame \<Rightarrow> PlayerPiece \<Rightarrow> nat" where
  "wonBy g p = length (filter (\<lambda>b. boardWinners g b = Some p) BOARD_IDS)"




text \<open>
  The eight lines of a board as the specification lists them, each by the (row, column)
  of its three cells: three rows, three columns, two diagonals. A grid holds a line when
  it is true at the line's three cells, and has a three-in-a-row when it holds one of the
  eight.
\<close>

definition rowLines :: "(int \<times> int) list list" where
  "rowLines = [[(0, 0), (0, 1), (0, 2)], [(1, 0), (1, 1), (1, 2)], [(2, 0), (2, 1), (2, 2)]]"

definition columnLines :: "(int \<times> int) list list" where
  "columnLines = [[(0, 0), (1, 0), (2, 0)], [(0, 1), (1, 1), (2, 1)], [(0, 2), (1, 2), (2, 2)]]"

definition diagonalLines :: "(int \<times> int) list list" where
  "diagonalLines = [[(0, 0), (1, 1), (2, 2)], [(0, 2), (1, 1), (2, 0)]]"

definition eightLines :: "(int \<times> int) list list" where
  "eightLines = rowLines @ columnLines @ diagonalLines"

definition holdsLine :: "grid \<Rightarrow> (int \<times> int) list \<Rightarrow> bool" where
  "holdsLine g line = list_all (\<lambda>rc. cell g (fst rc) (snd rc)) line"

definition threeInARow :: "grid \<Rightarrow> bool" where
  "threeInARow g = list_ex (holdsLine g) eightLines"

text \<open>
  Win detection as the specification words it: only the occupancy of the piece that
  moved is scanned, for a three-in-a-row over the eight lines. Found a line on a board
  without a winner, it assigns the board to the piece, adds one to the piece's score and
  marks the sub-board over with the identity in the piece's slot.
\<close>

definition addPoint :: "PlayerPiece \<Rightarrow> QuantumTicTacToeGame \<Rightarrow> QuantumTicTacToeGame" where
  "addPoint p g = (case p of PieceX \<Rightarrow> g\<lparr>xScore' := xScore' g + 1\<rparr>
                           | PieceO \<Rightarrow> g\<lparr>oScore' := oScore' g + 1\<rparr>)"

definition spec_checkBoard ::
  "PlayerPiece \<Rightarrow> BoardID \<Rightarrow> QuantumTicTacToeGame \<times> bool \<Rightarrow> QuantumTicTacToeGame \<times> bool" where
  "spec_checkBoard mover b gc =
     (let g = fst gc in
      if boardWinners g b = None \<and> threeInARow (privateBoards g mover b)
      then (markBoardAsWon b (slotOf mover g)
              (addPoint mover (g\<lparr>boardWinners := (boardWinners g)(b \<mapsto> mover)\<rparr>)), True)
      else gc)"

definition spec_checkForWins :: "PlayerPiece \<Rightarrow> QuantumTicTacToeGame \<Rightarrow> QuantumTicTacToeGame" where
  "spec_checkForWins mover g =
     (let (g1, scoreChanged) = fold (spec_checkBoard mover) BOARD_IDS (g, False) in
      if scoreChanged
      then g1\<lparr>state := (state g1)\<lparr>xScore := xScore' g1, oScore := oScore' g1\<rparr>\<rparr>
      else g1)"

text \<open>
  The one command that resets a game: a \<open>leave\<close> by a player of the game when fewer than
  two slots are occupied.
\<close>

definition resets :: "command \<Rightarrow> QuantumTicTacToeGame \<Rightarrow> bool" where
  "resets cmd g =
     (case cmd of
        Leave p \<Rightarrow> (x_id (state g) = Some p \<or> o_id (state g) = Some p) \<and>
                   \<not> (truthy (x_id (state g)) \<and> truthy (o_id (state g)))
      | _ \<Rightarrow> False)"

text \<open>
  A piece's private score, and the number of boards without a winner on which the piece
  holds one of the eight lines.
\<close>

definition scoreOf :: "PlayerPiece \<Rightarrow> QuantumTicTacToeGame \<Rightarrow> nat" where
  "scoreOf p g = (case p of PieceX \<Rightarrow> xScore' g | PieceO \<Rightarrow> oScore' g)"

definition lineAt :: "PlayerPiece \<Rightarrow> QuantumTicTacToeGame \<Rightarrow> BoardID \<Rightarrow> nat" where
  "lineAt p g b = (if boardWinners g b = None \<and> threeInARow (privateBoards g p b) then 1 else 0)"

definition newLines :: "PlayerPiece \<Rightarrow> QuantumTicTacToeGame \<Rightarrow> nat" where
  "newLines p g = lineAt p g A + lineAt p g B + lineAt p g C"

section \<open>Invariants\<close>

text \<open>
  Every grid is 3 by 3; the move counter is the length of the log; the public scores are
  the private ones, and each is the number of boards won; a board without a winner holds
  no line of either piece; a piece occupies a cell in its hidden grid exactly when it is
  the cell's recorded occupant; a cell has a recorded occupant exactly when the log holds
  a move on it, and the occupant's piece has played it; a cell is visible exactly when
  both pieces have played it; the cells of a sub-board's move list are distinct and in
  range; a game in progress has its X slot occupied, and the two slots hold different
  players.
\<close>

definition wfGrid :: "grid \<Rightarrow> bool" where
  "wfGrid g = (length g = 3 \<and> list_all (\<lambda>r. length r = 3) g)"

definition invShape :: "QuantumTicTacToeGame \<Rightarrow> bool" where
  "invShape g = ((\<forall>p b. wfGrid (privateBoards g p b)) \<and> (\<forall>b. wfGrid (publiclyVisible (state g) b)))"

definition invCount :: "QuantumTicTacToeGame \<Rightarrow> bool" where
  "invCount g = (moveCount g = length (moves (state g)))"

definition invScores :: "QuantumTicTacToeGame \<Rightarrow> bool" where
  "invScores g =
     (xScore (state g) = xScore' g \<and> oScore (state g) = oScore' g \<and>
      xScore' g = wonBy g PieceX \<and> oScore' g = wonBy g PieceO)"

definition invLines :: "QuantumTicTacToeGame \<Rightarrow> bool" where
  "invLines g =
     (\<forall>b. boardWinners g b = None \<longrightarrow>
        \<not> hasThreeInARow (privateBoards g PieceX b) \<and> \<not> hasThreeInARow (privateBoards g PieceO b))"

definition invOcc :: "QuantumTicTacToeGame \<Rightarrow> bool" where
  "invOcc g =
     (\<forall>p b r c. inRange r \<longrightarrow> inRange c \<longrightarrow>
        cell (privateBoards g p b) r c = (map_option gamePiece (existingOccupant g b r c) = Some p))"

definition invLog :: "QuantumTicTacToeGame \<Rightarrow> bool" where
  "invLog g =
     (\<forall>b r c. inRange r \<longrightarrow> inRange c \<longrightarrow>
        (case existingOccupant g b r c of
           None \<Rightarrow> (\<forall>p. \<not> played g p b r c)
         | Some m \<Rightarrow> played g (gamePiece m) b r c))"

definition invVis :: "QuantumTicTacToeGame \<Rightarrow> bool" where
  "invVis g =
     (\<forall>b r c. inRange r \<longrightarrow> inRange c \<longrightarrow>
        cell (publiclyVisible (state g) b) r c = (played g PieceX b r c \<and> played g PieceO b r c))"

definition invSub :: "QuantumTicTacToeGame \<Rightarrow> bool" where
  "invSub g =
     (\<forall>b. distinct (map (\<lambda>m. (row m, col m)) (moves (games g b))) \<and>
          (\<forall>m \<in> set (moves (games g b)). inRange (row m) \<and> inRange (col m)))"

definition invSlots :: "QuantumTicTacToeGame \<Rightarrow> bool" where
  "invSlots g =
     ((status (state g) = IN_PROGRESS \<longrightarrow> truthy (x_id (state g))) \<and>
      (\<forall>p. x_id (state g) = Some p \<longrightarrow> o_id (state g) \<noteq> Some p))"

definition boardInv :: "QuantumTicTacToeGame \<Rightarrow> bool" where
  "boardInv g =
     (invShape g \<and> invCount g \<and> invScores g \<and> invLines g \<and> invOcc g \<and> invLog g \<and> invVis g
      \<and> invSub g)"

definition scoreInv :: "QuantumTicTacToeGame \<Rightarrow> bool" where
  "scoreInv g = (invCount g \<and> invScores g \<and> invLines g \<and> invSlots g)"

text \<open>
  Two games with the same grids, log and sub-board move lists, and with the same winners
  and scores; a game in which no board without a winner holds a line of the given piece.
\<close>

definition sameBoards :: "QuantumTicTacToeGame \<Rightarrow> QuantumTicTacToeGame \<Rightarrow> bool" where
  "sameBoards g g' =
     (privateBoards g' = privateBoards g \<and>
      publiclyVisible (state g') = publiclyVisible (state g) \<and>
      moves (state g') = moves (state g) \<and>
      (\<forall>b. moves (games g' b) = moves (games g b)))"

definition sameScores :: "QuantumTicTacToeGame \<Rightarrow> QuantumTicTacToeGame \<Rightarrow> bool" where
  "sameScores g g' =
     (boardWinners g' = boardWinners g \<and> xScore' g' = xScore' g \<and> oScore' g' = oScore' g \<and>
      xScore (state g') = xScore (state g) \<and> oScore (state g') = oScore (state g))"

definition quiet :: "PlayerPiece \<Rightarrow> QuantumTicTacToeGame \<Rightarrow> bool" where
  "quiet q g = (\<forall>b. boardWinners g b = None \<longrightarrow> \<not> hasThreeInARow (privateBoards g q b))"

section \<open>The paths through the methods\<close>

text \<open>
  The game \<open>applyMove\<close> has built when it reaches win detection, on its two branches: the
  cell had no occupant (\<open>claimCell\<close>), or it had one of the other piece (\<open>collide\<close>);
  the loop of \<open>_checkForWins\<close> with its flag; and the game \<open>_leave\<close> builds when both
  slots are occupied.
\<close>

definition logMove ::
  "PlayerPiece \<Rightarrow> BoardID \<Rightarrow> int \<Rightarrow> int \<Rightarrow> (BoardID \<Rightarrow> grid) \<Rightarrow> QuantumTicTacToeGame
     \<Rightarrow> QuantumTicTacToeGame" where
  "logMove p b r c vis g =
     g\<lparr>moveCount := Suc (length (moves (state g))),
       state := (state g)\<lparr>moves := moves (state g) @ [\<lparr>gamePiece = p, row = r, col = c, board = b\<rparr>],
                          publiclyVisible := vis\<rparr>\<rparr>"

definition claimCell ::
  "PlayerPiece \<Rightarrow> BoardID \<Rightarrow> int \<Rightarrow> int \<Rightarrow> QuantumTicTacToeGame \<Rightarrow> QuantumTicTacToeGame" where
  "claimCell p b r c g =
     logMove p b r c (publiclyVisible (state g))
       (appendMoveToSubGame b \<lparr>gamePiece = p, row = r, col = c\<rparr>
          (g\<lparr>privateBoards := (privateBoards g)
               (p := (privateBoards g p)(b := setCell (privateBoards g p b) r c))\<rparr>))"

definition collide ::
  "PlayerPiece \<Rightarrow> BoardID \<Rightarrow> int \<Rightarrow> int \<Rightarrow> QuantumTicTacToeGame \<Rightarrow> QuantumTicTacToeGame" where
  "collide p b r c g =
     logMove p b r c
       (if cell (publiclyVisible (state g) b) r c then publiclyVisible (state g)
        else (publiclyVisible (state g))(b := setCell (publiclyVisible (state g) b) r c)) g"

definition winsChecked :: "QuantumTicTacToeGame \<Rightarrow> QuantumTicTacToeGame \<times> bool" where
  "winsChecked g = fold checkBoard BOARD_IDS (g, False)"

definition leaveOver :: "subOp \<Rightarrow> PlayerID \<Rightarrow> QuantumTicTacToeGame \<Rightarrow> QuantumTicTacToeGame" where
  "leaveOver tleave p g =
     g\<lparr>games := forEachLeave tleave p BOARD_IDS (games g),
       state := (state g)
         \<lparr>status := OVER,
          winner := (if x_id (state g) = Some p then o_id (state g) else x_id (state g)),
          x_id := (if x_id (state g) = Some p then None else x_id (state g)),
          o_id := (if o_id (state g) = Some p then None else o_id (state g))\<rparr>\<rparr>"

section \<open>Examples\<close>

text \<open>
  A command that moves (the \<open>gamePiece\<close> a client sends is never read by the engine,
  which derives the piece from the player's slot), and a run of commands on a new game
  with the sub-board operations modelled above.
\<close>

definition moveOf :: "PlayerID \<Rightarrow> BoardID \<Rightarrow> int \<Rightarrow> int \<Rightarrow> command" where
  "moveOf p b r c =
     Move \<lparr>playerID = p, gameID = ''game'',
           move = \<lparr>gamePiece = PieceX, row = r, col = c, board = b\<rparr>\<rparr>"

definition play :: "command list \<Rightarrow> QuantumTicTacToeGame" where
  "play cmds = run TicTacToeGame_join TicTacToeGame_leave cmds (newQuantumTicTacToeGame ''game'')"

section \<open>Lemmas\<close>

subsection \<open>Grids\<close>

lemma cloneGrid_id [simp]: "cloneGrid g = g"
  by (simp add: cloneGrid_def)

lemma cloneVisibility_id [simp]: "cloneVisibility v = v"
  by (simp add: cloneVisibility_def)

lemma wfGrid_emptyGrid [simp]: "wfGrid emptyGrid"
  by (simp add: wfGrid_def emptyGrid_def)

lemma cell_emptyGrid [simp]: "inRange r \<Longrightarrow> inRange c \<Longrightarrow> \<not> cell emptyGrid r c"
proof -
  assume "inRange r" "inRange c"
  then have "nat r \<in> {0, 1, 2}" "nat c \<in> {0, 1, 2}"
    by (auto simp: inRange_def)
  then show ?thesis
    by (auto simp: cell_def emptyGrid_def)
qed

lemma inRange_nat: "inRange r \<Longrightarrow> nat r < 3"
  unfolding inRange_def by arith

lemma inRange_nat_eq: "inRange r \<Longrightarrow> inRange r' \<Longrightarrow> (nat r = nat r') = (r = r')"
  unfolding inRange_def by arith

lemma wfGrid_row: "wfGrid g \<Longrightarrow> inRange r \<Longrightarrow> length (g ! nat r) = 3"
  by (simp add: wfGrid_def list_all_length inRange_nat)

lemma wfGrid_setCell: "wfGrid g \<Longrightarrow> inRange r \<Longrightarrow> inRange c \<Longrightarrow> wfGrid (setCell g r c)"
  using inRange_nat [of r]
  by (auto simp: wfGrid_def setCell_def list_all_length nth_list_update)

lemma cell_setCell:
  "wfGrid g \<Longrightarrow> inRange r \<Longrightarrow> inRange c \<Longrightarrow> inRange r' \<Longrightarrow> inRange c' \<Longrightarrow>
   cell (setCell g r c) r' c' = ((r' = r \<and> c' = c) \<or> cell g r' c')"
  using wfGrid_row [of g r] inRange_nat [of r] inRange_nat [of c]
        inRange_nat_eq [of r r'] inRange_nat_eq [of c c']
  by (auto simp: cell_def setCell_def wfGrid_def nth_list_update)

lemma hasThreeInARow_emptyGrid [simp]: "\<not> hasThreeInARow emptyGrid"
  by (simp add: hasThreeInARow_def cell_def emptyGrid_def)

text \<open>\<open>_hasThreeInARow\<close> finds a line exactly when the grid holds one of the eight.\<close>

lemma threeInARow_code: "threeInARow g = hasThreeInARow g"
  unfolding threeInARow_def hasThreeInARow_def eightLines_def rowLines_def columnLines_def
    diagonalLines_def holdsLine_def
  by auto

lemma hasThreeInARow_eightLines:
  "hasThreeInARow g =
     (\<exists>line \<in> set eightLines.
        cell g (fst (line ! 0)) (snd (line ! 0)) \<and>
        cell g (fst (line ! 1)) (snd (line ! 1)) \<and>
        cell g (fst (line ! 2)) (snd (line ! 2)))"
  unfolding hasThreeInARow_def eightLines_def rowLines_def columnLines_def diagonalLines_def
  by auto

lemma eightLines_iff:
  "(line \<in> set eightLines) =
     ((\<exists>i \<in> {0, 1, 2}. line = [(i, 0), (i, 1), (i, 2)] \<or> line = [(0, i), (1, i), (2, i)])
      \<or> line = [(0, 0), (1, 1), (2, 2)] \<or> line = [(0, 2), (1, 1), (2, 0)])"
  unfolding eightLines_def rowLines_def columnLines_def diagonalLines_def
  by auto

lemma length_eightLines: "length eightLines = 8"
  by (simp add: eightLines_def rowLines_def columnLines_def diagonalLines_def)

lemma distinct_eightLines: "distinct (map set eightLines)"
  by code_simp

subsection \<open>The modelled sub-board operations\<close>

lemma keepsMoves_join: "keepsMoves TicTacToeGame_join"
  by (simp add: keepsMoves_def TicTacToeGame_join_def)

lemma keepsMoves_leave: "keepsMoves TicTacToeGame_leave"
  by (simp add: keepsMoves_def TicTacToeGame_leave_def)

subsection \<open>The paths through applyMove\<close>

lemma validateMove_InrD:
  assumes "validateMove gm g = Inr p"
  shows "status (state g) = IN_PROGRESS"
    and "Some (playerID gm) = x_id (state g) \<or> Some (playerID gm) = o_id (state g)"
    and "p = (if Some (playerID gm) = x_id (state g) then PieceX else PieceO)"
    and "(p = PieceX \<and> even (moveCount g)) \<or> (p = PieceO \<and> odd (moveCount g))"
    and "inRange (row (move gm))" and "inRange (col (move gm))"
    and "boardWinners g (board (move gm)) = None"
    and "\<not> cell (privateBoards g p (board (move gm))) (row (move gm)) (col (move gm))"
  using assms
  by (auto simp: validateMove_def Let_def inRange_def split: if_splits)

lemma placeMove_Inl: "placeMove gm g = (g1, Inl e) \<Longrightarrow> g1 = g"
  by (auto simp: placeMove_def Let_def split: sum.splits option.splits if_splits)

lemma placeMove_claim:
  assumes "validateMove gm g = Inr p"
    and "existingOccupant g (board (move gm)) (row (move gm)) (col (move gm)) = None"
  shows "placeMove gm g = (claimCell p (board (move gm)) (row (move gm)) (col (move gm)) g, Inr p)"
  using assms
  by (simp add: placeMove_def existingOccupant_def claimCell_def logMove_def Let_def
      appendMoveToSubGame_def)

lemma placeMove_collide:
  assumes "validateMove gm g = Inr p"
    and "existingOccupant g (board (move gm)) (row (move gm)) (col (move gm)) = Some m"
    and "gamePiece m \<noteq> p"
  shows "placeMove gm g = (collide p (board (move gm)) (row (move gm)) (col (move gm)) g, Inr p)"
  using assms
  by (simp add: placeMove_def existingOccupant_def collide_def logMove_def Let_def)

lemma placeMove_same:
  assumes "validateMove gm g = Inr p"
    and "existingOccupant g (board (move gm)) (row (move gm)) (col (move gm)) = Some m"
    and "gamePiece m = p"
  shows "placeMove gm g = (g, Inl BOARD_POSITION_NOT_EMPTY_MESSAGE)"
  using assms
  by (simp add: placeMove_def existingOccupant_def Let_def)

lemma placeMove_invalid:
  "validateMove gm g = Inl e \<Longrightarrow> placeMove gm g = (g, Inl e)"
  by (simp add: placeMove_def)

lemma placeMove_InrE:
  assumes "placeMove gm g = (g1, Inr p)"
  obtains
    (claim) "validateMove gm g = Inr p"
      "existingOccupant g (board (move gm)) (row (move gm)) (col (move gm)) = None"
      "g1 = claimCell p (board (move gm)) (row (move gm)) (col (move gm)) g"
  | (collide) m where "validateMove gm g = Inr p"
      "existingOccupant g (board (move gm)) (row (move gm)) (col (move gm)) = Some m"
      "gamePiece m \<noteq> p"
      "g1 = collide p (board (move gm)) (row (move gm)) (col (move gm)) g"
proof (cases "validateMove gm g")
  case (Inl e)
  with assms show ?thesis by (simp add: placeMove_invalid)
next
  case (Inr q)
  show ?thesis
  proof (cases "existingOccupant g (board (move gm)) (row (move gm)) (col (move gm))")
    case None
    with Inr assms claim show ?thesis by (auto simp: placeMove_claim)
  next
    case (Some m)
    show ?thesis
    proof (cases "gamePiece m = q")
      case True
      with Inr Some assms show ?thesis by (simp add: placeMove_same)
    next
      case False
      with Inr Some assms collide [of m] show ?thesis by (auto simp: placeMove_collide)
    qed
  qed
qed

subsection \<open>Win detection\<close>

lemma fold_BOARD_IDS: "fold f BOARD_IDS s = f C (f B (f A s))"
  by (simp add: BOARD_IDS_def)

lemma BoardID_all: "(\<forall>b. P b) = (P A \<and> P B \<and> P C)"
  by (metis BoardID.exhaust)

lemma checkBoard_frame:
  "privateBoards (fst (checkBoard b gc)) = privateBoards (fst gc)"
  "moves (games (fst (checkBoard b gc)) b') = moves (games (fst gc) b')"
  "moves (state (fst (checkBoard b gc))) = moves (state (fst gc))"
  "publiclyVisible (state (fst (checkBoard b gc))) = publiclyVisible (state (fst gc))"
  "status (state (fst (checkBoard b gc))) = status (state (fst gc))"
  "x_id (state (fst (checkBoard b gc))) = x_id (state (fst gc))"
  "o_id (state (fst (checkBoard b gc))) = o_id (state (fst gc))"
  "winner (state (fst (checkBoard b gc))) = winner (state (fst gc))"
  "xScore (state (fst (checkBoard b gc))) = xScore (state (fst gc))"
  "oScore (state (fst (checkBoard b gc))) = oScore (state (fst gc))"
  "moveCount (fst (checkBoard b gc)) = moveCount (fst gc)"
  "result (fst (checkBoard b gc)) = result (fst gc)"
  "id_game (fst (checkBoard b gc)) = id_game (fst gc)"
  by (simp_all add: checkBoard_def Let_def markBoardAsWon_def)

lemma checkBoard_unchanged:
  "\<not> snd (checkBoard b gc) \<Longrightarrow> fst (checkBoard b gc) = fst gc \<and> \<not> snd gc"
  by (simp add: checkBoard_def Let_def split: if_splits)

lemma checkBoard_boardWinners:
  "boardWinners (fst (checkBoard b gc)) b' =
     (if b' = b \<and> boardWinners (fst gc) b = None
      then (if hasThreeInARow (privateBoards (fst gc) PieceX b) then Some PieceX
            else if hasThreeInARow (privateBoards (fst gc) PieceO b) then Some PieceO
            else None)
      else boardWinners (fst gc) b')"
  by (simp add: checkBoard_def Let_def markBoardAsWon_def)

lemma checkBoard_xScore:
  "xScore' (fst (checkBoard b gc)) =
     xScore' (fst gc) +
       (if boardWinners (fst gc) b = None \<and> hasThreeInARow (privateBoards (fst gc) PieceX b)
        then 1 else 0)"
  by (simp add: checkBoard_def Let_def markBoardAsWon_def)

lemma checkBoard_oScore:
  "oScore' (fst (checkBoard b gc)) =
     oScore' (fst gc) +
       (if boardWinners (fst gc) b = None \<and> \<not> hasThreeInARow (privateBoards (fst gc) PieceX b)
           \<and> hasThreeInARow (privateBoards (fst gc) PieceO b)
        then 1 else 0)"
  by (simp add: checkBoard_def Let_def markBoardAsWon_def)

lemma checkForWins_eq:
  "checkForWins g =
     (if snd (winsChecked g)
      then (fst (winsChecked g))
             \<lparr>state := (state (fst (winsChecked g)))
                \<lparr>xScore := xScore' (fst (winsChecked g)), oScore := oScore' (fst (winsChecked g))\<rparr>\<rparr>
      else g)"
proof (cases "snd (winsChecked g)")
  case True
  then show ?thesis
    by (simp add: checkForWins_def winsChecked_def case_prod_beta)
next
  case False
  then have "fst (winsChecked g) = g"
    unfolding winsChecked_def fold_BOARD_IDS
    by (metis checkBoard_unchanged fst_conv)
  with False show ?thesis
    by (simp add: checkForWins_def winsChecked_def case_prod_beta)
qed

lemma winsChecked_frame:
  "privateBoards (fst (winsChecked g)) = privateBoards g"
  "moves (games (fst (winsChecked g)) b') = moves (games g b')"
  "moves (state (fst (winsChecked g))) = moves (state g)"
  "publiclyVisible (state (fst (winsChecked g))) = publiclyVisible (state g)"
  "status (state (fst (winsChecked g))) = status (state g)"
  "x_id (state (fst (winsChecked g))) = x_id (state g)"
  "o_id (state (fst (winsChecked g))) = o_id (state g)"
  "winner (state (fst (winsChecked g))) = winner (state g)"
  "xScore (state (fst (winsChecked g))) = xScore (state g)"
  "oScore (state (fst (winsChecked g))) = oScore (state g)"
  "moveCount (fst (winsChecked g)) = moveCount g"
  "result (fst (winsChecked g)) = result g"
  "id_game (fst (winsChecked g)) = id_game g"
  by (simp_all add: winsChecked_def fold_BOARD_IDS checkBoard_frame)

lemma checkForWins_frame:
  "privateBoards (checkForWins g) = privateBoards g"
  "moves (games (checkForWins g) b') = moves (games g b')"
  "moves (state (checkForWins g)) = moves (state g)"
  "publiclyVisible (state (checkForWins g)) = publiclyVisible (state g)"
  "status (state (checkForWins g)) = status (state g)"
  "x_id (state (checkForWins g)) = x_id (state g)"
  "o_id (state (checkForWins g)) = o_id (state g)"
  "winner (state (checkForWins g)) = winner (state g)"
  "moveCount (checkForWins g) = moveCount g"
  "result (checkForWins g) = result g"
  "id_game (checkForWins g) = id_game g"
  by (simp_all add: checkForWins_eq winsChecked_frame)

lemma checkForWins_boardWinners:
  "boardWinners (checkForWins g) b =
     (if boardWinners g b = None
      then (if hasThreeInARow (privateBoards g PieceX b) then Some PieceX
            else if hasThreeInARow (privateBoards g PieceO b) then Some PieceO
            else None)
      else boardWinners g b)"
proof -
  have w: "boardWinners (fst (winsChecked g)) b =
     (if boardWinners g b = None
      then (if hasThreeInARow (privateBoards g PieceX b) then Some PieceX
            else if hasThreeInARow (privateBoards g PieceO b) then Some PieceO
            else None)
      else boardWinners g b)"
    unfolding winsChecked_def fold_BOARD_IDS
    by (cases b) (simp_all add: checkBoard_boardWinners checkBoard_frame)
  show ?thesis
  proof (cases "snd (winsChecked g)")
    case True
    with w show ?thesis by (simp add: checkForWins_eq)
  next
    case False
    then have "fst (winsChecked g) = g"
      unfolding winsChecked_def fold_BOARD_IDS
      by (metis checkBoard_unchanged fst_conv)
    with w False show ?thesis by (simp add: checkForWins_eq)
  qed
qed

lemma invLines_checkForWins: "invLines (checkForWins g)"
  by (simp add: invLines_def checkForWins_boardWinners checkForWins_frame)

subsection \<open>The invariants under a move\<close>

lemma find_snoc:
  "find P (xs @ [x]) = (case find P xs of Some y \<Rightarrow> Some y | None \<Rightarrow> if P x then Some x else None)"
  by (induction xs) auto

lemma find_None_set: "find P xs = None \<Longrightarrow> x \<in> set xs \<Longrightarrow> \<not> P x"
  by (simp add: find_None_iff)

lemma existingOccupant_claimCell:
  "existingOccupant (claimCell p b r c g) b' r' c' =
     (if b' = b
      then (case existingOccupant g b r' c' of
              Some y \<Rightarrow> Some y
            | None \<Rightarrow> if r' = r \<and> c' = c then Some \<lparr>gamePiece = p, row = r, col = c\<rparr> else None)
      else existingOccupant g b' r' c')"
  by (auto simp: existingOccupant_def claimCell_def logMove_def appendMoveToSubGame_def Let_def
      find_snoc split: option.splits)

lemma existingOccupant_collide:
  "existingOccupant (collide p b r c g) b' r' c' = existingOccupant g b' r' c'"
  by (simp add: existingOccupant_def collide_def logMove_def)

lemma played_claimCell:
  "played (claimCell p b r c g) q b' r' c' =
     (played g q b' r' c' \<or> (q = p \<and> b' = b \<and> r' = r \<and> c' = c))"
  by (auto simp: played_def claimCell_def logMove_def appendMoveToSubGame_def Let_def list_ex_iff)

lemma played_collide:
  "played (collide p b r c g) q b' r' c' =
     (played g q b' r' c' \<or> (q = p \<and> b' = b \<and> r' = r \<and> c' = c))"
  by (auto simp: played_def collide_def logMove_def list_ex_iff)

lemma privateBoards_claimCell:
  "privateBoards (claimCell p b r c g) q b' =
     (if q = p \<and> b' = b then setCell (privateBoards g p b) r c else privateBoards g q b')"
  by (simp add: claimCell_def logMove_def appendMoveToSubGame_def Let_def)

lemma privateBoards_collide: "privateBoards (collide p b r c g) = privateBoards g"
  by (simp add: collide_def logMove_def)

lemma publiclyVisible_claimCell:
  "publiclyVisible (state (claimCell p b r c g)) = publiclyVisible (state g)"
  by (simp add: claimCell_def logMove_def appendMoveToSubGame_def Let_def)

lemma publiclyVisible_collide:
  "publiclyVisible (state (collide p b r c g)) b' =
     (if b' = b \<and> \<not> cell (publiclyVisible (state g) b) r c
      then setCell (publiclyVisible (state g) b) r c
      else publiclyVisible (state g) b')"
  by (simp add: collide_def logMove_def)

lemma invShape_claimCell:
  "invShape g \<Longrightarrow> inRange r \<Longrightarrow> inRange c \<Longrightarrow> invShape (claimCell p b r c g)"
  by (simp add: invShape_def privateBoards_claimCell publiclyVisible_claimCell wfGrid_setCell)

lemma invShape_collide:
  "invShape g \<Longrightarrow> inRange r \<Longrightarrow> inRange c \<Longrightarrow> invShape (collide p b r c g)"
  by (simp add: invShape_def privateBoards_collide publiclyVisible_collide wfGrid_setCell)

lemma invOcc_claimCell:
  assumes "invShape g" "invOcc g" "inRange r" "inRange c" "existingOccupant g b r c = None"
  shows "invOcc (claimCell p b r c g)"
  unfolding invOcc_def
proof (intro allI impI)
  fix q b' r' c'
  assume rng: "inRange r'" "inRange c'"
  from assms(1) have wf: "wfGrid (privateBoards g p b)"
    by (simp add: invShape_def)
  from assms(2) rng have old:
    "\<And>q b'. cell (privateBoards g q b') r' c' = (map_option gamePiece (existingOccupant g b' r' c') = Some q)"
    by (simp add: invOcc_def)
  show "cell (privateBoards (claimCell p b r c g) q b') r' c' =
        (map_option gamePiece (existingOccupant (claimCell p b r c g) b' r' c') = Some q)"
    using assms(3,4,5) rng wf old [of q b'] old [of p b]
    by (auto simp: privateBoards_claimCell existingOccupant_claimCell cell_setCell
        split: option.splits)
qed

lemma invOcc_collide: "invOcc g \<Longrightarrow> invOcc (collide p b r c g)"
  by (simp add: invOcc_def privateBoards_collide existingOccupant_collide)

lemma invLog_claimCell:
  assumes "invLog g" "inRange r" "inRange c" "existingOccupant g b r c = None"
  shows "invLog (claimCell p b r c g)"
  unfolding invLog_def
proof (intro allI impI)
  fix b' r' c'
  assume rng: "inRange r'" "inRange c'"
  with assms(1) have old:
    "case existingOccupant g b' r' c' of None \<Rightarrow> (\<forall>p. \<not> played g p b' r' c')
       | Some m \<Rightarrow> played g (gamePiece m) b' r' c'"
    by (simp add: invLog_def)
  show "case existingOccupant (claimCell p b r c g) b' r' c' of
          None \<Rightarrow> (\<forall>q. \<not> played (claimCell p b r c g) q b' r' c')
        | Some m \<Rightarrow> played (claimCell p b r c g) (gamePiece m) b' r' c'"
    using old assms(4)
    by (auto simp: existingOccupant_claimCell played_claimCell split: option.splits)
qed

lemma invLog_collide:
  assumes "invLog g" "inRange r" "inRange c" "existingOccupant g b r c = Some m"
  shows "invLog (collide p b r c g)"
  unfolding invLog_def
proof (intro allI impI)
  fix b' r' c'
  assume rng: "inRange r'" "inRange c'"
  with assms(1) have old:
    "case existingOccupant g b' r' c' of None \<Rightarrow> (\<forall>p. \<not> played g p b' r' c')
       | Some m \<Rightarrow> played g (gamePiece m) b' r' c'"
    by (simp add: invLog_def)
  show "case existingOccupant (collide p b r c g) b' r' c' of
          None \<Rightarrow> (\<forall>q. \<not> played (collide p b r c g) q b' r' c')
        | Some m \<Rightarrow> played (collide p b r c g) (gamePiece m) b' r' c'"
    using old assms(4)
    by (auto simp: existingOccupant_collide played_collide split: option.splits)
qed

lemma invVis_claimCell:
  assumes "invVis g" "invLog g" "inRange r" "inRange c" "existingOccupant g b r c = None"
  shows "invVis (claimCell p b r c g)"
  unfolding invVis_def
proof (intro allI impI)
  fix b' r' c'
  assume rng: "inRange r'" "inRange c'"
  from assms(2,3,4) have
    "case existingOccupant g b r c of None \<Rightarrow> (\<forall>p. \<not> played g p b r c)
       | Some m \<Rightarrow> played g (gamePiece m) b r c"
    by (simp add: invLog_def)
  with assms(5) have none: "\<And>q. \<not> played g q b r c"
    by simp
  from assms(1) rng have old:
    "cell (publiclyVisible (state g) b') r' c' = (played g PieceX b' r' c' \<and> played g PieceO b' r' c')"
    by (simp add: invVis_def)
  show "cell (publiclyVisible (state (claimCell p b r c g)) b') r' c' =
        (played (claimCell p b r c g) PieceX b' r' c' \<and> played (claimCell p b r c g) PieceO b' r' c')"
    using old none
    by (auto simp: publiclyVisible_claimCell played_claimCell)
qed

lemma invVis_collide:
  assumes "invShape g" "invVis g" "invLog g" "inRange r" "inRange c"
    "existingOccupant g b r c = Some m" "gamePiece m \<noteq> p"
  shows "invVis (collide p b r c g)"
  unfolding invVis_def
proof (intro allI impI)
  fix b' r' c'
  assume rng: "inRange r'" "inRange c'"
  from assms(3,4,5) have
    "case existingOccupant g b r c of None \<Rightarrow> (\<forall>p. \<not> played g p b r c)
       | Some m \<Rightarrow> played g (gamePiece m) b r c"
    by (simp add: invLog_def)
  with assms(6) have first: "played g (gamePiece m) b r c"
    by simp
  from assms(7) have other: "(gamePiece m = PieceX \<and> p = PieceO) \<or> (gamePiece m = PieceO \<and> p = PieceX)"
    by (cases p; cases "gamePiece m") auto
  from assms(1) have wf: "wfGrid (publiclyVisible (state g) b)"
    by (simp add: invShape_def)
  from assms(2) rng have old:
    "\<And>b'. cell (publiclyVisible (state g) b') r' c' = (played g PieceX b' r' c' \<and> played g PieceO b' r' c')"
    by (simp add: invVis_def)
  show "cell (publiclyVisible (state (collide p b r c g)) b') r' c' =
        (played (collide p b r c g) PieceX b' r' c' \<and> played (collide p b r c g) PieceO b' r' c')"
    using old [of b'] first other wf rng assms(4,5)
    by (auto simp: publiclyVisible_collide played_collide cell_setCell)
qed

lemma invSub_claimCell:
  assumes "invSub g" "inRange r" "inRange c" "existingOccupant g b r c = None"
  shows "invSub (claimCell p b r c g)"
proof -
  from assms(4) have "\<And>m. m \<in> set (moves (games g b)) \<Longrightarrow> \<not> (row m = r \<and> col m = c)"
    unfolding existingOccupant_def by (rule find_None_set)
  then have "(r, c) \<notin> (\<lambda>m. (row m, col m)) ` set (moves (games g b))"
    by auto
  with assms(1,2,3) show ?thesis
    by (auto simp: invSub_def claimCell_def logMove_def appendMoveToSubGame_def Let_def)
qed

lemma invSub_collide: "invSub g \<Longrightarrow> invSub (collide p b r c g)"
  by (simp add: invSub_def collide_def logMove_def)

subsection \<open>Games that agree on boards or on scores\<close>

lemma checkForGameEnding_frame:
  "privateBoards (checkForGameEnding g) = privateBoards g"
  "games (checkForGameEnding g) = games g"
  "boardWinners (checkForGameEnding g) = boardWinners g"
  "xScore' (checkForGameEnding g) = xScore' g"
  "oScore' (checkForGameEnding g) = oScore' g"
  "moveCount (checkForGameEnding g) = moveCount g"
  "id_game (checkForGameEnding g) = id_game g"
  "moves (state (checkForGameEnding g)) = moves (state g)"
  "x_id (state (checkForGameEnding g)) = x_id (state g)"
  "o_id (state (checkForGameEnding g)) = o_id (state g)"
  "xScore (state (checkForGameEnding g)) = xScore (state g)"
  "oScore (state (checkForGameEnding g)) = oScore (state g)"
  "publiclyVisible (state (checkForGameEnding g)) = publiclyVisible (state g)"
  by (simp_all add: checkForGameEnding_def Let_def)

lemma existingOccupant_same:
  "moves (games g' b) = moves (games g b) \<Longrightarrow> existingOccupant g' b r c = existingOccupant g b r c"
  unfolding existingOccupant_def by (erule arg_cong)

lemma played_same:
  "moves (state g') = moves (state g) \<Longrightarrow> played g' p b r c = played g p b r c"
  unfolding played_def by (erule arg_cong)

lemma sameBoards_invShape: "sameBoards g g' \<Longrightarrow> invShape g \<Longrightarrow> invShape g'"
  by (simp add: sameBoards_def invShape_def)

lemma sameBoards_existingOccupant:
  "sameBoards g g' \<Longrightarrow> existingOccupant g' = existingOccupant g"
  by (intro ext existingOccupant_same) (simp add: sameBoards_def)

lemma sameBoards_played: "sameBoards g g' \<Longrightarrow> played g' = played g"
  by (intro ext played_same) (simp add: sameBoards_def)

lemma sameBoards_invOcc: "sameBoards g g' \<Longrightarrow> invOcc g \<Longrightarrow> invOcc g'"
  using sameBoards_existingOccupant [of g g']
  by (simp add: sameBoards_def invOcc_def)

lemma sameBoards_invLog: "sameBoards g g' \<Longrightarrow> invLog g \<Longrightarrow> invLog g'"
  using sameBoards_existingOccupant [of g g'] sameBoards_played [of g g']
  by (simp add: invLog_def cong: option.case_cong)

lemma sameBoards_invVis: "sameBoards g g' \<Longrightarrow> invVis g \<Longrightarrow> invVis g'"
  using sameBoards_played [of g g']
  by (simp add: sameBoards_def invVis_def)

lemma sameBoards_invSub: "sameBoards g g' \<Longrightarrow> invSub g \<Longrightarrow> invSub g'"
  by (simp add: sameBoards_def invSub_def)

lemma sameScores_invScores: "sameScores g g' \<Longrightarrow> invScores g \<Longrightarrow> invScores g'"
  by (simp add: sameScores_def invScores_def wonBy_def)

lemma sameScores_invLines:
  "sameScores g g' \<Longrightarrow> privateBoards g' = privateBoards g \<Longrightarrow> invLines g \<Longrightarrow> invLines g'"
  by (simp add: sameScores_def invLines_def)

lemma sameBoards_checkForWins: "sameBoards g (checkForWins g)"
  by (simp add: sameBoards_def checkForWins_frame)

lemma sameBoards_checkForGameEnding: "sameBoards g (checkForGameEnding g)"
  by (simp add: sameBoards_def checkForGameEnding_frame)

lemma sameScores_checkForGameEnding: "sameScores g (checkForGameEnding g)"
  by (simp add: sameScores_def checkForGameEnding_frame)

lemma sameScores_claimCell: "sameScores g (claimCell p b r c g)"
  by (simp add: sameScores_def claimCell_def logMove_def appendMoveToSubGame_def Let_def)

lemma sameScores_collide: "sameScores g (collide p b r c g)"
  by (simp add: sameScores_def collide_def logMove_def)

lemma checkBoard_wonBy:
  assumes "xScore' (fst gc) = wonBy (fst gc) PieceX" "oScore' (fst gc) = wonBy (fst gc) PieceO"
  shows "xScore' (fst (checkBoard b gc)) = wonBy (fst (checkBoard b gc)) PieceX"
    and "oScore' (fst (checkBoard b gc)) = wonBy (fst (checkBoard b gc)) PieceO"
  using assms
  by (cases b; simp add: checkBoard_xScore checkBoard_oScore wonBy_def BOARD_IDS_def
      checkBoard_boardWinners)+

lemma winsChecked_wonBy:
  assumes "xScore' g = wonBy g PieceX" "oScore' g = wonBy g PieceO"
  shows "xScore' (fst (winsChecked g)) = wonBy (fst (winsChecked g)) PieceX"
    and "oScore' (fst (winsChecked g)) = wonBy (fst (winsChecked g)) PieceO"
  using assms unfolding winsChecked_def fold_BOARD_IDS
  by (simp_all add: checkBoard_wonBy)

lemma invScores_checkForWins: "invScores g \<Longrightarrow> invScores (checkForWins g)"
proof (cases "snd (winsChecked g)")
  case True
  assume "invScores g"
  then have "xScore' g = wonBy g PieceX" "oScore' g = wonBy g PieceO"
    by (simp_all add: invScores_def)
  from winsChecked_wonBy [OF this] True show ?thesis
    by (simp add: invScores_def checkForWins_eq wonBy_def)
next
  case False
  assume "invScores g"
  with False show ?thesis by (simp add: checkForWins_eq)
qed

lemma invCount_claimCell: "invCount (claimCell p b r c g)"
  by (simp add: invCount_def claimCell_def logMove_def appendMoveToSubGame_def Let_def)

lemma invCount_collide: "invCount (collide p b r c g)"
  by (simp add: invCount_def collide_def logMove_def)

lemma boardInv_finish:
  assumes "invShape g" "invCount g" "invScores g" "invOcc g" "invLog g" "invVis g" "invSub g"
  shows "boardInv (checkForGameEnding (checkForWins g))"
proof -
  let ?w = "checkForWins g" and ?e = "checkForGameEnding (checkForWins g)"
  have sb: "sameBoards g ?w" "sameBoards ?w ?e"
    by (rule sameBoards_checkForWins, rule sameBoards_checkForGameEnding)
  have ss: "sameScores ?w ?e"
    by (rule sameScores_checkForGameEnding)
  have "invShape ?e"
    using sb assms(1) by (blast intro: sameBoards_invShape)
  moreover have "invCount ?e"
    using assms(2) by (simp add: invCount_def checkForGameEnding_frame checkForWins_frame)
  moreover have "invScores ?e"
    using ss assms(3) by (blast intro: sameScores_invScores invScores_checkForWins)
  moreover have "invLines ?e"
    using ss invLines_checkForWins [of g]
    by (blast intro: sameScores_invLines checkForGameEnding_frame(1))
  moreover have "invOcc ?e"
    using sb assms(4) by (blast intro: sameBoards_invOcc)
  moreover have "invLog ?e"
    using sb assms(5) by (blast intro: sameBoards_invLog)
  moreover have "invVis ?e"
    using sb assms(6) by (blast intro: sameBoards_invVis)
  moreover have "invSub ?e"
    using sb assms(7) by (blast intro: sameBoards_invSub)
  ultimately show ?thesis
    by (simp add: boardInv_def)
qed

lemma boardInv_applyMove: "boardInv g \<Longrightarrow> boardInv (fst (applyMove gm g))"
proof -
  assume inv: "boardInv g"
  obtain g1 res where pm: "placeMove gm g = (g1, res)"
    by (cases "placeMove gm g")
  show ?thesis
  proof (cases res)
    case (Inl e)
    with pm have "g1 = g" by (simp add: placeMove_Inl)
    with pm Inl inv show ?thesis by (simp add: applyMove_def)
  next
    case (Inr p)
    let ?b = "board (move gm)" and ?r = "row (move gm)" and ?c = "col (move gm)"
    from pm Inr have pm': "placeMove gm g = (g1, Inr p)" by simp
    have "invShape g1 \<and> invCount g1 \<and> invScores g1 \<and> invOcc g1 \<and> invLog g1 \<and> invVis g1 \<and> invSub g1"
      using pm'
    proof (cases rule: placeMove_InrE)
      case claim
      note rng = validateMove_InrD(5,6) [OF claim(1)]
      from inv rng claim(2,3) show ?thesis
        by (simp add: boardInv_def invShape_claimCell invCount_claimCell invOcc_claimCell
            invLog_claimCell invVis_claimCell invSub_claimCell
            sameScores_invScores [OF sameScores_claimCell])
    next
      case (collide m)
      note rng = validateMove_InrD(5,6) [OF collide(1)]
      from inv rng collide(2,3,4) show ?thesis
        by (simp add: boardInv_def invShape_collide invCount_collide invOcc_collide
            invLog_collide invVis_collide invSub_collide
            sameScores_invScores [OF sameScores_collide])
    qed
    then have "boardInv (checkForGameEnding (checkForWins g1))"
      by (simp add: boardInv_finish)
    with pm' show ?thesis by (simp add: applyMove_def)
  qed
qed

subsection \<open>The invariants under join and leave\<close>

lemma keepsMovesD: "keepsMoves f \<Longrightarrow> moves (fst (f p t)) = moves t"
  by (simp add: keepsMoves_def)

lemma forEachJoin_moves:
  "keepsMoves tjoin \<Longrightarrow> moves (fst (forEachJoin tjoin p bs gs) b) = moves (gs b)"
proof (induction bs arbitrary: gs)
  case Nil
  then show ?case by simp
next
  case (Cons a bs)
  obtain t err where step: "tjoin p (gs a) = (t, err)"
    by (cases "tjoin p (gs a)")
  with keepsMovesD [OF Cons.prems, of p "gs a"] have t: "moves t = moves (gs a)"
    by simp
  have upd: "moves ((gs(a := t)) b) = moves (gs b)"
    using t by simp
  show ?case
  proof (cases err)
    case None
    have "moves (fst (forEachJoin tjoin p bs (gs(a := t))) b) = moves ((gs(a := t)) b)"
      by (rule Cons.IH [OF Cons.prems])
    then have "moves (fst (forEachJoin tjoin p bs (gs(a := t))) b) = moves (gs b)"
      using upd by (rule trans)
    with step None show ?thesis by simp
  next
    case (Some e)
    with step upd show ?thesis by simp
  qed
qed

lemma forEachLeave_moves:
  "keepsMoves tleave \<Longrightarrow> moves (forEachLeave tleave p bs gs b) = moves (gs b)"
proof (induction bs arbitrary: gs)
  case Nil
  then show ?case by simp
next
  case (Cons a bs)
  have upd: "moves ((gs(a := fst (tleave p (gs a)))) b) = moves (gs b)"
    using keepsMovesD [OF Cons.prems, of p "gs a"] by simp
  have "moves (forEachLeave tleave p bs (gs(a := fst (tleave p (gs a)))) b)
        = moves ((gs(a := fst (tleave p (gs a)))) b)"
    by (rule Cons.IH [OF Cons.prems])
  then have "moves (forEachLeave tleave p bs (gs(a := fst (tleave p (gs a)))) b) = moves (gs b)"
    using upd by (rule trans)
  then show ?case by simp
qed

lemma join_sameBoards: "keepsMoves tjoin \<Longrightarrow> sameBoards g (fst (join tjoin p g))"
  by (simp add: sameBoards_def join_def Let_def forEachJoin_moves case_prod_beta
      split: option.splits)

lemma join_sameScores: "sameScores g (fst (join tjoin p g))"
  by (simp add: sameScores_def join_def Let_def case_prod_beta split: option.splits)

lemma join_invCount: "invCount g \<Longrightarrow> invCount (fst (join tjoin p g))"
  by (simp add: invCount_def join_def Let_def case_prod_beta split: option.splits)

lemma boardInv_transfer:
  assumes "sameBoards g g'" "sameScores g g'" "invCount g'" "boardInv g"
  shows "boardInv g'"
proof -
  from assms(1) have pb: "privateBoards g' = privateBoards g"
    by (simp add: sameBoards_def)
  from assms show ?thesis
    unfolding boardInv_def
    by (blast intro: sameBoards_invShape sameScores_invScores sameScores_invLines [OF _ pb]
        sameBoards_invOcc sameBoards_invLog sameBoards_invVis sameBoards_invSub)
qed

lemma boardInv_join:
  "keepsMoves tjoin \<Longrightarrow> boardInv g \<Longrightarrow> boardInv (fst (join tjoin p g))"
  by (rule boardInv_transfer [OF join_sameBoards join_sameScores join_invCount])
     (simp_all add: boardInv_def)

lemma existingOccupant_fresh: "moves (games g b) = [] \<Longrightarrow> existingOccupant g b r c = None"
  by (simp add: existingOccupant_def)

lemma played_fresh: "moves (state g) = [] \<Longrightarrow> \<not> played g p b r c"
  by (simp add: played_def)

lemma boardInv_fresh:
  assumes "privateBoards g = createEmptyPrivateBoards"
    and "publiclyVisible (state g) = createEmptyVisibility"
    and "moves (state g) = []" and "\<And>b. moves (games g b) = []"
    and "moveCount g = 0" and "xScore' g = 0" and "oScore' g = 0"
    and "xScore (state g) = 0" and "oScore (state g) = 0"
    and "boardWinners g = Map.empty"
  shows "boardInv g"
proof -
  have "invShape g"
    using assms(1,2) by (simp add: invShape_def createEmptyPrivateBoards_def createEmptyVisibility_def)
  moreover have "invCount g"
    using assms(3,5) by (simp add: invCount_def)
  moreover have "invScores g"
    using assms(6-10) by (simp add: invScores_def wonBy_def)
  moreover have "invLines g"
    using assms(1) by (simp add: invLines_def createEmptyPrivateBoards_def)
  moreover have "invOcc g"
    using assms(1,4) by (simp add: invOcc_def createEmptyPrivateBoards_def existingOccupant_fresh)
  moreover have "invLog g"
    using assms(3,4) by (simp add: invLog_def existingOccupant_fresh played_fresh)
  moreover have "invVis g"
    using assms(2,3) by (simp add: invVis_def createEmptyVisibility_def played_fresh)
  moreover have "invSub g"
    using assms(4) by (simp add: invSub_def)
  ultimately show ?thesis
    by (simp add: boardInv_def)
qed

lemma boardInv_new: "boardInv (newQuantumTicTacToeGame gid)"
  by (rule boardInv_fresh)
     (simp_all add: newQuantumTicTacToeGame_def createSubGames_def newTicTacToeGame_def)

lemma boardInv_reset: "boardInv (resetGameState g)"
  by (rule boardInv_fresh)
     (simp_all add: resetGameState_def createSubGames_def newTicTacToeGame_def)

lemma leave_cases:
  "leave tleave p g =
     (if x_id (state g) \<noteq> Some p \<and> o_id (state g) \<noteq> Some p
      then (g, Some PLAYER_NOT_IN_GAME_MESSAGE)
      else if truthy (x_id (state g)) \<and> truthy (o_id (state g))
      then (leaveOver tleave p g, None)
      else (resetGameState (g\<lparr>games := forEachLeave tleave p BOARD_IDS (games g)\<rparr>), None))"
  by (simp add: leave_def leaveOver_def Let_def)

lemma leaveOver_same:
  "keepsMoves tleave \<Longrightarrow> sameBoards g (leaveOver tleave p g)"
  "sameScores g (leaveOver tleave p g)"
  "moveCount (leaveOver tleave p g) = moveCount g"
  by (simp_all add: sameBoards_def sameScores_def leaveOver_def forEachLeave_moves)

lemma boardInv_leave:
  "keepsMoves tleave \<Longrightarrow> boardInv g \<Longrightarrow> boardInv (fst (leave tleave p g))"
proof -
  assume km: "keepsMoves tleave" and inv: "boardInv g"
  have "invCount (leaveOver tleave p g)"
    using inv leaveOver_same(1) [OF km, of g p] leaveOver_same(3) [of tleave p g]
    by (simp add: boardInv_def invCount_def sameBoards_def)
  with inv km have "boardInv (leaveOver tleave p g)"
    by (blast intro: boardInv_transfer leaveOver_same)
  with inv show ?thesis
    by (simp add: leave_cases boardInv_reset)
qed

lemma boardInv_exec:
  "keepsMoves tjoin \<Longrightarrow> keepsMoves tleave \<Longrightarrow> boardInv g \<Longrightarrow>
   boardInv (fst (exec tjoin tleave cmd g))"
  by (cases cmd) (simp_all add: exec_def boardInv_join boardInv_leave boardInv_applyMove)

lemma reachable_boardInv:
  "reachable tjoin tleave g \<Longrightarrow> keepsMoves tjoin \<Longrightarrow> keepsMoves tleave \<Longrightarrow> boardInv g"
proof (induction rule: reachable.induct)
  case (reachable_new gid)
  show ?case by (rule boardInv_new)
next
  case (reachable_exec g cmd)
  then show ?case by (simp add: boardInv_exec)
qed

subsection \<open>Invariants that hold whatever the sub-board operations do\<close>

lemma invSlots_status:
  assumes "invSlots g" "x_id (state g') = x_id (state g)" "o_id (state g') = o_id (state g)"
    "status (state g') = status (state g) \<or> status (state g') = OVER"
  shows "invSlots g'"
  using assms by (auto simp: invSlots_def)

lemma placeMove_slots:
  "x_id (state (fst (placeMove gm g))) = x_id (state g)"
  "o_id (state (fst (placeMove gm g))) = o_id (state g)"
  "status (state (fst (placeMove gm g))) = status (state g)"
  "winner (state (fst (placeMove gm g))) = winner (state g)"
  "result (fst (placeMove gm g)) = result g"
  "id_game (fst (placeMove gm g)) = id_game g"
  "boardWinners (fst (placeMove gm g)) = boardWinners g"
  "xScore' (fst (placeMove gm g)) = xScore' g"
  "oScore' (fst (placeMove gm g)) = oScore' g"
  "xScore (state (fst (placeMove gm g))) = xScore (state g)"
  "oScore (state (fst (placeMove gm g))) = oScore (state g)"
  by (simp_all add: placeMove_def Let_def appendMoveToSubGame_def
      split: sum.splits option.splits)

lemma checkForGameEnding_status:
  "status (state (checkForGameEnding g)) = status (state g) \<or>
   status (state (checkForGameEnding g)) = OVER"
  by (simp add: checkForGameEnding_def Let_def)

lemma applyMove_eq:
  "applyMove gm g =
     (case snd (placeMove gm g) of
        Inl e \<Rightarrow> (g, Some e)
      | Inr p \<Rightarrow> (checkForGameEnding (checkForWins (fst (placeMove gm g))), None))"
  by (cases "placeMove gm g")
     (auto simp: applyMove_def placeMove_Inl split: sum.splits)

lemma invCount_placeMove: "invCount g \<Longrightarrow> invCount (fst (placeMove gm g))"
  by (simp add: invCount_def placeMove_def Let_def appendMoveToSubGame_def
      split: sum.splits option.splits)

lemma scoreInv_applyMove: "scoreInv g \<Longrightarrow> scoreInv (fst (applyMove gm g))"
proof (cases "snd (placeMove gm g)")
  case (Inl e)
  assume "scoreInv g"
  with Inl show ?thesis by (simp add: applyMove_eq)
next
  case (Inr p)
  assume inv: "scoreInv g"
  let ?g1 = "fst (placeMove gm g)"
  let ?w = "checkForWins ?g1"
  let ?e = "checkForGameEnding ?w"
  have "sameScores g ?g1"
    by (simp add: sameScores_def placeMove_slots)
  moreover from inv have "invScores g"
    by (simp add: scoreInv_def)
  ultimately have "invScores ?g1"
    by (rule sameScores_invScores)
  then have "invScores ?w"
    by (rule invScores_checkForWins)
  then have "invScores ?e"
    by (rule sameScores_invScores [OF sameScores_checkForGameEnding])
  moreover have "invLines ?e"
    by (rule sameScores_invLines [OF sameScores_checkForGameEnding checkForGameEnding_frame(1)
          invLines_checkForWins])
  moreover have "invCount ?e"
    using inv invCount_placeMove [of g gm]
    by (simp add: scoreInv_def invCount_def checkForGameEnding_frame checkForWins_frame)
  moreover have "invSlots ?e"
  proof (rule invSlots_status [of g])
    show "invSlots g"
      using inv by (simp add: scoreInv_def)
    show "status (state ?e) = status (state g) \<or> status (state ?e) = OVER"
      using checkForGameEnding_status [of ?w]
      by (simp add: checkForWins_frame placeMove_slots)
  qed (simp_all add: checkForGameEnding_frame checkForWins_frame placeMove_slots)
  ultimately show ?thesis
    using Inr by (simp add: applyMove_eq scoreInv_def)
qed

lemma join_games_only:
  "privateBoards (fst (join tjoin p g)) = privateBoards g"
  "publiclyVisible (state (fst (join tjoin p g))) = publiclyVisible (state g)"
  "moves (state (fst (join tjoin p g))) = moves (state g)"
  by (simp_all add: join_def Let_def case_prod_beta split: option.splits)

lemma invSlots_join: "invSlots g \<Longrightarrow> invSlots (fst (join tjoin p g))"
  by (auto simp: invSlots_def join_def Let_def case_prod_beta truthy_def
      split: option.splits if_splits)

lemma scoreInv_join: "scoreInv g \<Longrightarrow> scoreInv (fst (join tjoin p g))"
proof -
  assume inv: "scoreInv g"
  have ss: "sameScores g (fst (join tjoin p g))"
    by (rule join_sameScores)
  from inv have old: "invScores g" "invLines g"
    by (simp_all add: scoreInv_def)
  have "invScores (fst (join tjoin p g))"
    by (rule sameScores_invScores [OF ss old(1)])
  moreover have "invLines (fst (join tjoin p g))"
    by (rule sameScores_invLines [OF ss join_games_only(1) old(2)])
  ultimately show ?thesis
    using inv by (simp add: scoreInv_def join_invCount invSlots_join)
qed

lemma scoreInv_fresh:
  assumes "privateBoards g = createEmptyPrivateBoards"
    and "moves (state g) = []" and "status (state g) = WAITING_TO_START"
    and "x_id (state g) = None"
    and "moveCount g = 0" and "xScore' g = 0" and "oScore' g = 0"
    and "xScore (state g) = 0" and "oScore (state g) = 0"
    and "boardWinners g = Map.empty"
  shows "scoreInv g"
  using assms
  by (simp add: scoreInv_def invCount_def invScores_def invLines_def invSlots_def wonBy_def
      createEmptyPrivateBoards_def)

lemma scoreInv_new: "scoreInv (newQuantumTicTacToeGame gid)"
  by (rule scoreInv_fresh) (simp_all add: newQuantumTicTacToeGame_def)

lemma scoreInv_reset: "scoreInv (resetGameState g)"
  by (rule scoreInv_fresh) (simp_all add: resetGameState_def)

lemma scoreInv_leaveOver: "scoreInv g \<Longrightarrow> scoreInv (leaveOver tleave p g)"
proof -
  assume inv: "scoreInv g"
  have ss: "sameScores g (leaveOver tleave p g)"
    by (rule leaveOver_same)
  have pb: "privateBoards (leaveOver tleave p g) = privateBoards g"
    by (simp add: leaveOver_def)
  have "invCount (leaveOver tleave p g)"
    using inv by (simp add: scoreInv_def invCount_def leaveOver_def)
  moreover have "invSlots (leaveOver tleave p g)"
    using inv by (auto simp: scoreInv_def invSlots_def leaveOver_def)
  moreover from inv have old: "invScores g" "invLines g"
    by (simp_all add: scoreInv_def)
  have "invScores (leaveOver tleave p g)"
    by (rule sameScores_invScores [OF ss old(1)])
  moreover have "invLines (leaveOver tleave p g)"
    by (rule sameScores_invLines [OF ss pb old(2)])
  ultimately show ?thesis
    by (simp add: scoreInv_def)
qed

lemma scoreInv_leave: "scoreInv g \<Longrightarrow> scoreInv (fst (leave tleave p g))"
  by (simp add: leave_cases scoreInv_reset scoreInv_leaveOver)

lemma scoreInv_exec: "scoreInv g \<Longrightarrow> scoreInv (fst (exec tjoin tleave cmd g))"
  by (cases cmd) (simp_all add: exec_def scoreInv_join scoreInv_leave scoreInv_applyMove)

lemma reachable_scoreInv: "reachable tjoin tleave g \<Longrightarrow> scoreInv g"
  by (induction rule: reachable.induct) (simp_all add: scoreInv_new scoreInv_exec)

subsection \<open>Win detection of the mover only\<close>

lemma checkBoard_spec:
  "quiet (otherPiece p) (fst gc) \<Longrightarrow> checkBoard b gc = spec_checkBoard p b gc"
  by (cases p)
     (auto simp: quiet_def otherPiece_def checkBoard_def spec_checkBoard_def Let_def slotOf_def
       addPoint_def markBoardAsWon_def threeInARow_code)

lemma quiet_checkBoard: "quiet q (fst gc) \<Longrightarrow> quiet q (fst (checkBoard b gc))"
  by (simp add: quiet_def checkBoard_boardWinners checkBoard_frame)

lemma checkForWins_spec:
  assumes "quiet (otherPiece p) g"
  shows "checkForWins g = spec_checkForWins p g"
proof -
  have q0: "quiet (otherPiece p) (fst (g, False))"
    using assms by simp
  have q1: "quiet (otherPiece p) (fst (checkBoard A (g, False)))"
    by (rule quiet_checkBoard [OF q0])
  have q2: "quiet (otherPiece p) (fst (checkBoard B (checkBoard A (g, False))))"
    by (rule quiet_checkBoard [OF q1])
  have s1: "checkBoard A (g, False) = spec_checkBoard p A (g, False)"
    by (rule checkBoard_spec [OF q0])
  have s2: "checkBoard B (checkBoard A (g, False)) = spec_checkBoard p B (checkBoard A (g, False))"
    by (rule checkBoard_spec [OF q1])
  have s3: "checkBoard C (checkBoard B (checkBoard A (g, False)))
            = spec_checkBoard p C (checkBoard B (checkBoard A (g, False)))"
    by (rule checkBoard_spec [OF q2])
  have "fold checkBoard BOARD_IDS (g, False) = fold (spec_checkBoard p) BOARD_IDS (g, False)"
    unfolding fold_BOARD_IDS using s1 s2 s3 by simp
  then show ?thesis
    by (simp add: checkForWins_def spec_checkForWins_def)
qed

lemma quiet_placeMove:
  assumes "invLines g" "placeMove gm g = (g1, Inr p)"
  shows "quiet (otherPiece p) g1"
  using assms(2)
proof (cases rule: placeMove_InrE)
  case claim
  have "privateBoards g1 (otherPiece p) = privateBoards g (otherPiece p)"
    unfolding claim(3) by (cases p) (simp_all add: otherPiece_def privateBoards_claimCell fun_eq_iff)
  moreover have "boardWinners g1 = boardWinners g"
    using sameScores_claimCell [of g p] by (simp add: claim(3) sameScores_def)
  ultimately show ?thesis
    using assms(1) by (cases p) (simp_all add: quiet_def invLines_def otherPiece_def)
next
  case (collide m)
  have "privateBoards g1 = privateBoards g"
    unfolding collide(4) by (rule privateBoards_collide)
  moreover have "boardWinners g1 = boardWinners g"
    using sameScores_collide [of g p] by (simp add: collide(4) sameScores_def)
  ultimately show ?thesis
    using assms(1) by (cases p) (simp_all add: quiet_def invLines_def otherPiece_def)
qed

lemma checkForWins_noop: "invLines g \<Longrightarrow> checkForWins g = g"
proof -
  assume "invLines g"
  then have "\<And>b ch. checkBoard b (g, ch) = (g, ch)"
    by (simp add: invLines_def checkBoard_def Let_def)
  then show ?thesis
    by (simp add: checkForWins_def fold_BOARD_IDS)
qed

subsection \<open>Runs\<close>

lemma run_snoc: "run tjoin tleave (cmds @ [cmd]) g = fst (exec tjoin tleave cmd (run tjoin tleave cmds g))"
  by (simp add: run_def)

lemma reachable_run:
  "reachable tjoin tleave (run tjoin tleave cmds (newQuantumTicTacToeGame gid))"
proof (induction cmds rule: rev_induct)
  case Nil
  show ?case by (simp add: run_def reachable_new)
next
  case (snoc cmd cmds)
  then show ?case by (simp add: run_snoc reachable_exec)
qed

lemma reachable_play: "reachable TicTacToeGame_join TicTacToeGame_leave (play cmds)"
  unfolding play_def by (rule reachable_run)

subsection \<open>Sub-boards and scores under win detection\<close>

lemma checkBoard_games:
  "games (fst (checkBoard b' gc)) b =
     (if b = b' \<and> boardWinners (fst gc) b = None \<and> hasThreeInARow (privateBoards (fst gc) PieceX b)
      then (games (fst gc) b)\<lparr>status := OVER, winner := x_id (state (fst gc))\<rparr>
      else if b = b' \<and> boardWinners (fst gc) b = None \<and> hasThreeInARow (privateBoards (fst gc) PieceO b)
      then (games (fst gc) b)\<lparr>status := OVER, winner := o_id (state (fst gc))\<rparr>
      else games (fst gc) b)"
  by (auto simp: checkBoard_def Let_def markBoardAsWon_def)

lemma checkForWins_games:
  "games (checkForWins g) b =
     (if boardWinners g b = None \<and> hasThreeInARow (privateBoards g PieceX b)
      then (games g b)\<lparr>status := OVER, winner := x_id (state g)\<rparr>
      else if boardWinners g b = None \<and> hasThreeInARow (privateBoards g PieceO b)
      then (games g b)\<lparr>status := OVER, winner := o_id (state g)\<rparr>
      else games g b)"
proof -
  have w: "games (fst (winsChecked g)) b =
     (if boardWinners g b = None \<and> hasThreeInARow (privateBoards g PieceX b)
      then (games g b)\<lparr>status := OVER, winner := x_id (state g)\<rparr>
      else if boardWinners g b = None \<and> hasThreeInARow (privateBoards g PieceO b)
      then (games g b)\<lparr>status := OVER, winner := o_id (state g)\<rparr>
      else games g b)"
    unfolding winsChecked_def fold_BOARD_IDS
    by (cases b) (simp_all add: checkBoard_games checkBoard_boardWinners checkBoard_frame)
  show ?thesis
  proof (cases "snd (winsChecked g)")
    case True
    with w show ?thesis by (simp add: checkForWins_eq)
  next
    case False
    then have "fst (winsChecked g) = g"
      unfolding winsChecked_def fold_BOARD_IDS
      by (metis checkBoard_unchanged fst_conv)
    with w False show ?thesis by (simp add: checkForWins_eq)
  qed
qed

lemma wonBy_sum: "wonBy g PieceX + wonBy g PieceO \<le> 3"
  by (simp add: wonBy_def BOARD_IDS_def)

lemma winsChecked_unchanged: "\<not> snd (winsChecked g) \<Longrightarrow> fst (winsChecked g) = g"
  unfolding winsChecked_def fold_BOARD_IDS
  by (metis checkBoard_unchanged fst_conv)

lemma checkForWins_private_scores:
  "xScore' (checkForWins g) = xScore' (fst (winsChecked g))"
  "oScore' (checkForWins g) = oScore' (fst (winsChecked g))"
  by (cases "snd (winsChecked g)"; simp add: checkForWins_eq winsChecked_unchanged)+

lemma checkForWins_scores_mono:
  "xScore' g \<le> xScore' (checkForWins g)" "oScore' g \<le> oScore' (checkForWins g)"
  unfolding checkForWins_private_scores winsChecked_def fold_BOARD_IDS
  by (simp_all add: checkBoard_xScore checkBoard_oScore checkBoard_frame)

lemma checkForWins_winners_kept:
  "boardWinners g b = Some p \<Longrightarrow> boardWinners (checkForWins g) b = Some p"
  by (simp add: checkForWins_boardWinners)

lemma applyMove_scores_mono:
  assumes "scoreInv g"
  shows "xScore (state g) \<le> xScore (state (fst (applyMove gm g)))"
    and "oScore (state g) \<le> oScore (state (fst (applyMove gm g)))"
    and "boardWinners g b = Some p \<Longrightarrow> boardWinners (fst (applyMove gm g)) b = Some p"
proof -
  let ?g1 = "fst (placeMove gm g)"
  from assms have "scoreInv (fst (applyMove gm g))"
    by (rule scoreInv_applyMove)
  then have after: "xScore (state (fst (applyMove gm g))) = xScore' (fst (applyMove gm g))"
      "oScore (state (fst (applyMove gm g))) = oScore' (fst (applyMove gm g))"
    by (simp_all add: scoreInv_def invScores_def)
  from assms have before: "xScore (state g) = xScore' g" "oScore (state g) = oScore' g"
    by (simp_all add: scoreInv_def invScores_def)
  have "xScore' g \<le> xScore' (fst (applyMove gm g))"
    using checkForWins_scores_mono(1) [of ?g1]
    by (cases "snd (placeMove gm g)")
       (simp_all add: applyMove_eq checkForGameEnding_frame placeMove_slots)
  with before after show "xScore (state g) \<le> xScore (state (fst (applyMove gm g)))"
    by simp
  have "oScore' g \<le> oScore' (fst (applyMove gm g))"
    using checkForWins_scores_mono(2) [of ?g1]
    by (cases "snd (placeMove gm g)")
       (simp_all add: applyMove_eq checkForGameEnding_frame placeMove_slots)
  with before after show "oScore (state g) \<le> oScore (state (fst (applyMove gm g)))"
    by simp
  show "boardWinners g b = Some p \<Longrightarrow> boardWinners (fst (applyMove gm g)) b = Some p"
    using checkForWins_winners_kept [of ?g1 b p]
    by (cases "snd (placeMove gm g)")
       (simp_all add: applyMove_eq checkForGameEnding_frame placeMove_slots)
qed

lemma exec_scores_mono:
  assumes "scoreInv g" "\<not> resets cmd g"
  shows "xScore (state g) \<le> xScore (state (fst (exec tjoin tleave cmd g)))
       \<and> oScore (state g) \<le> oScore (state (fst (exec tjoin tleave cmd g)))
       \<and> (\<forall>b p. boardWinners g b = Some p \<longrightarrow>
                  boardWinners (fst (exec tjoin tleave cmd g)) b = Some p)"
proof (cases cmd)
  case (Join p)
  with join_sameScores [of g tjoin p] show ?thesis
    by (simp add: exec_def sameScores_def)
next
  case (Leave p)
  with assms(2) leaveOver_same(2) [of g tleave p] show ?thesis
    by (auto simp: exec_def resets_def leave_cases sameScores_def)
next
  case (Move gm)
  with applyMove_scores_mono [OF assms(1), where gm = gm] show ?thesis
    by (simp add: exec_def)
qed

lemma exec_resets:
  "resets cmd g \<Longrightarrow>
   xScore (state (fst (exec tjoin tleave cmd g))) = 0 \<and>
   oScore (state (fst (exec tjoin tleave cmd g))) = 0"
  by (cases cmd) (auto simp: resets_def exec_def leave_cases resetGameState_def)

subsection \<open>Status\<close>

lemma applyMove_status:
  "status (state (fst (applyMove gm g))) = status (state g) \<or>
   (status (state g) = IN_PROGRESS \<and> status (state (fst (applyMove gm g))) = OVER)"
proof (cases "snd (placeMove gm g)")
  case (Inl e)
  then show ?thesis by (simp add: applyMove_eq)
next
  case (Inr p)
  then have "placeMove gm g = (fst (placeMove gm g), Inr p)"
    by (cases "placeMove gm g") simp
  then have "validateMove gm g = Inr p"
    by (cases rule: placeMove_InrE)
  then have "status (state g) = IN_PROGRESS"
    by (rule validateMove_InrD)
  with Inr checkForGameEnding_status [of "checkForWins (fst (placeMove gm g))"] show ?thesis
    by (simp add: applyMove_eq checkForWins_frame placeMove_slots)
qed

lemma join_status:
  "status (state (fst (join tjoin p g))) = status (state g) \<or>
   (status (state (fst (join tjoin p g))) = IN_PROGRESS \<and> truthy (x_id (state g)) \<and>
    \<not> truthy (o_id (state g)) \<and> o_id (state (fst (join tjoin p g))) = Some p)"
  by (simp add: join_def Let_def case_prod_beta split: option.splits)

lemma leave_status:
  "status (state (fst (leave tleave p g))) = status (state g) \<or>
   (status (state (fst (leave tleave p g))) = OVER \<and>
      truthy (x_id (state g)) \<and> truthy (o_id (state g))) \<or>
   (status (state (fst (leave tleave p g))) = WAITING_TO_START \<and>
      \<not> (truthy (x_id (state g)) \<and> truthy (o_id (state g))) \<and>
      moves (state (fst (leave tleave p g))) = [])"
  by (simp add: leave_cases leaveOver_def resetGameState_def)

subsection \<open>Rejections\<close>

lemma validateMove_chain:
  "validateMove gm g =
     (if status (state g) \<noteq> IN_PROGRESS then Inl GAME_NOT_IN_PROGRESS_MESSAGE
      else if x_id (state g) \<noteq> Some (playerID gm) \<and> o_id (state g) \<noteq> Some (playerID gm)
      then Inl PLAYER_NOT_IN_GAME_MESSAGE
      else if moverPiece gm g \<noteq> (if even (moveCount g) then PieceX else PieceO)
      then Inl MOVE_NOT_YOUR_TURN_MESSAGE
      else if row (move gm) \<notin> {0..2} \<or> col (move gm) \<notin> {0..2}
      then Inl BOARD_POSITION_NOT_VALID_MESSAGE
      else if boardWinners g (board (move gm)) \<noteq> None
      then Inl BOARD_POSITION_NOT_VALID_MESSAGE
      else if cell (privateBoards g (moverPiece gm g) (board (move gm))) (row (move gm)) (col (move gm))
      then Inl BOARD_POSITION_NOT_EMPTY_MESSAGE
      else Inr (moverPiece gm g))"
  by (auto simp: validateMove_def moverPiece_def Let_def odd_iff_mod_2_eq_one even_iff_mod_2_eq_zero)

lemma placeMove_accepts:
  assumes "invOcc g" "validateMove gm g = Inr p"
  shows "snd (placeMove gm g) = Inr p"
proof (cases "existingOccupant g (board (move gm)) (row (move gm)) (col (move gm))")
  case None
  with assms(2) show ?thesis by (simp add: placeMove_claim)
next
  case (Some m)
  note v = validateMove_InrD [OF assms(2)]
  from assms(1) v(5,6) have
    "cell (privateBoards g p (board (move gm))) (row (move gm)) (col (move gm)) =
       (map_option gamePiece (existingOccupant g (board (move gm)) (row (move gm)) (col (move gm)))
          = Some p)"
    by (simp add: invOcc_def)
  with v(8) Some have "gamePiece m \<noteq> p"
    by simp
  with assms(2) Some show ?thesis by (simp add: placeMove_collide)
qed

lemma applyMove_error:
  assumes "invOcc g"
  shows "snd (applyMove gm g) = (case validateMove gm g of Inl e \<Rightarrow> Some e | Inr p \<Rightarrow> None)"
proof (cases "validateMove gm g")
  case (Inl e)
  then show ?thesis by (simp add: applyMove_eq placeMove_invalid)
next
  case (Inr p)
  with placeMove_accepts [OF assms Inr] show ?thesis by (simp add: applyMove_eq)
qed

subsection \<open>Collisions\<close>

lemma otherPiece_neq: "(q \<noteq> p) = (q = otherPiece p)"
  by (cases p; cases q) (simp_all add: otherPiece_def)

lemma collide_frame:
  "games (collide p b r c g) = games g"
  "boardWinners (collide p b r c g) = boardWinners g"
  "xScore' (collide p b r c g) = xScore' g"
  "oScore' (collide p b r c g) = oScore' g"
  "moves (state (collide p b r c g)) = moves (state g) @ [\<lparr>gamePiece = p, row = r, col = c, board = b\<rparr>]"
  by (simp_all add: collide_def logMove_def)

lemma visible_collide:
  assumes "invShape g" "inRange r" "inRange c" "inRange r'" "inRange c'"
  shows "cell (publiclyVisible (state (collide p b r c g)) b') r' c' =
           ((b' = b \<and> r' = r \<and> c' = c) \<or> cell (publiclyVisible (state g) b') r' c')"
proof -
  from assms(1) have "wfGrid (publiclyVisible (state g) b)"
    by (simp add: invShape_def)
  with assms(2-5) show ?thesis
    by (auto simp: publiclyVisible_collide cell_setCell)
qed

lemma applyMove_collision:
  assumes "boardInv g" "snd (applyMove gm g) = None"
    and "existingOccupant g (board (move gm)) (row (move gm)) (col (move gm)) = Some occupant"
  shows "validateMove gm g = Inr (moverPiece gm g)"
    and "gamePiece occupant = otherPiece (moverPiece gm g)"
    and "fst (applyMove gm g) =
           checkForGameEnding
             (collide (moverPiece gm g) (board (move gm)) (row (move gm)) (col (move gm)) g)"
proof -
  from assms(2) obtain p where acc: "snd (placeMove gm g) = Inr p"
    by (cases "snd (placeMove gm g)") (simp_all add: applyMove_eq)
  then have pm: "placeMove gm g = (fst (placeMove gm g), Inr p)"
    by (cases "placeMove gm g") simp
  from pm have v: "validateMove gm g = Inr p"
    by (cases rule: placeMove_InrE)
  then have p: "p = moverPiece gm g"
    by (simp add: validateMove_chain split: if_splits)
  from v p show "validateMove gm g = Inr (moverPiece gm g)"
    by simp
  from pm assms(3) have other: "gamePiece occupant \<noteq> p"
    and g1: "fst (placeMove gm g) = collide p (board (move gm)) (row (move gm)) (col (move gm)) g"
    by (cases rule: placeMove_InrE; simp)+
  from other p show "gamePiece occupant = otherPiece (moverPiece gm g)"
    by (simp add: otherPiece_neq)
  from assms(1) have "invLines g"
    by (simp add: boardInv_def)
  then have "invLines (collide p (board (move gm)) (row (move gm)) (col (move gm)) g)"
    by (rule sameScores_invLines [OF sameScores_collide privateBoards_collide])
  then have "checkForWins (fst (placeMove gm g)) = fst (placeMove gm g)"
    unfolding g1 by (rule checkForWins_noop)
  with acc g1 p show "fst (applyMove gm g) =
           checkForGameEnding
             (collide (moverPiece gm g) (board (move gm)) (row (move gm)) (col (move gm)) g)"
    by (simp add: applyMove_eq)
qed

subsection \<open>The move log\<close>

lemma played_mono:
  "set (moves (state g)) \<subseteq> set (moves (state g')) \<Longrightarrow> played g p b r c \<Longrightarrow> played g' p b r c"
  by (auto simp: played_def list_ex_iff)

lemma placeMove_log:
  "set (moves (state g)) \<subseteq> set (moves (state (fst (placeMove gm g))))"
proof (cases "snd (placeMove gm g)")
  case (Inl e)
  then have "placeMove gm g = (fst (placeMove gm g), Inl e)"
    by (cases "placeMove gm g") simp
  then have "fst (placeMove gm g) = g"
    by (rule placeMove_Inl)
  then show ?thesis by simp
next
  case (Inr p)
  then have "placeMove gm g = (fst (placeMove gm g), Inr p)"
    by (cases "placeMove gm g") simp
  then show ?thesis
    by (cases rule: placeMove_InrE)
       (auto simp: claimCell_def collide_def logMove_def appendMoveToSubGame_def Let_def)
qed

lemma exec_log:
  assumes "status (state (fst (exec tjoin tleave cmd g))) = IN_PROGRESS"
  shows "set (moves (state g)) \<subseteq> set (moves (state (fst (exec tjoin tleave cmd g))))"
proof (cases cmd)
  case (Join p)
  then show ?thesis by (simp add: exec_def join_games_only)
next
  case (Leave p)
  with assms show ?thesis
    by (auto simp: exec_def leave_cases leaveOver_def resetGameState_def split: if_splits)
next
  case (Move gm)
  with placeMove_log [of g gm] show ?thesis
    by (cases "snd (placeMove gm g)")
       (simp_all add: exec_def applyMove_eq checkForGameEnding_frame checkForWins_frame)
qed

subsection \<open>The end of the game\<close>

lemma invSub_length:
  assumes "invSub g"
  shows "length (moves (games g b)) \<le> 9"
proof -
  let ?cells = "map (\<lambda>m. (row m, col m)) (moves (games g b))"
  from assms have d: "distinct ?cells"
    and "\<forall>m \<in> set (moves (games g b)). inRange (row m) \<and> inRange (col m)"
    by (simp_all add: invSub_def)
  then have "set ?cells \<subseteq> {0..2} \<times> {0..2}"
    by (auto simp: inRange_def)
  then have le: "card (set ?cells) \<le> card ({0..2::int} \<times> {0..2::int})"
    by (intro card_mono) simp_all
  from d have "length ?cells = card (set ?cells)"
    by (rule distinct_card [symmetric])
  also note le
  also have "card ({0..2::int} \<times> {0..2::int}) = 9"
    by simp
  finally show ?thesis by simp
qed

lemma hasAvailableMove_iff:
  "list_ex (\<lambda>b. if boardWinners g b \<noteq> None then False else length (moves (games g b)) < 9) BOARD_IDS
     = (\<not> (\<forall>b. boardWinners g b \<noteq> None \<or> \<not> length (moves (games g b)) < 9))"
  by (auto simp: BoardID_all BOARD_IDS_def)

lemma checkForGameEnding_over_iff:
  "status (state g) \<noteq> OVER \<Longrightarrow>
   (status (state (checkForGameEnding g)) = OVER) =
     (\<forall>b. boardWinners g b \<noteq> None \<or> \<not> length (moves (games g b)) < 9)"
  unfolding checkForGameEnding_def hasAvailableMove_iff
  by (simp add: Let_def)

lemma checkForGameEnding_ends:
  assumes "status (state g) \<noteq> OVER" "status (state (checkForGameEnding g)) = OVER"
  shows "checkForGameEnding g =
     (let w = (if xScore' g > oScore' g then x_id (state g)
               else if oScore' g > xScore' g then o_id (state g)
               else None);
          g1 = g\<lparr>state := (state g)\<lparr>status := OVER, winner := w\<rparr>\<rparr>;
          sc0 = (if truthy (x_id (state g)) then AList.update (the (x_id (state g))) (xScore' g) [] else []);
          sc = (if truthy (o_id (state g)) then AList.update (the (o_id (state g))) (oScore' g) sc0 else sc0)
      in if length sc > 0
         then g1\<lparr>result := Some \<lparr>result_gameID = id_game g, scores = sc\<rparr>\<rparr>
         else g1)"
proof -
  from assms have "\<forall>b. boardWinners g b \<noteq> None \<or> \<not> length (moves (games g b)) < 9"
    by (simp add: checkForGameEnding_over_iff)
  then have "\<not> list_ex (\<lambda>b. if boardWinners g b \<noteq> None then False
                              else length (moves (games g b)) < 9) BOARD_IDS"
    unfolding hasAvailableMove_iff by simp
  with assms(1) show ?thesis
    by (simp add: checkForGameEnding_def Let_def)
qed

lemma checkForGameEnding_winner:
  "status (state g) \<noteq> OVER \<Longrightarrow> status (state (checkForGameEnding g)) = OVER \<Longrightarrow>
   winner (state (checkForGameEnding g)) =
     (if xScore' g > oScore' g then x_id (state g)
      else if oScore' g > xScore' g then o_id (state g)
      else None)"
  by (simp add: checkForGameEnding_ends Let_def)

lemma checkForGameEnding_result:
  assumes "status (state g) \<noteq> OVER" "status (state (checkForGameEnding g)) = OVER"
    "truthy (x_id (state g))"
  shows "\<exists>sc. result (checkForGameEnding g) = Some \<lparr>result_gameID = id_game g, scores = sc\<rparr> \<and>
     (\<forall>pid. map_of sc pid =
        (if truthy (o_id (state g)) \<and> o_id (state g) = Some pid then Some (oScore' g)
         else if x_id (state g) = Some pid then Some (xScore' g)
         else None))"
proof -
  from assms(3) obtain xp where xp: "x_id (state g) = Some xp"
    by (cases "x_id (state g)") (simp_all add: truthy_def)
  show ?thesis
  proof (cases "truthy (o_id (state g))")
    case True
    then obtain op' where op': "o_id (state g) = Some op'"
      by (cases "o_id (state g)") (simp_all add: truthy_def)
    from assms(3) True xp op' show ?thesis
      unfolding checkForGameEnding_ends [OF assms(1,2)]
      by (auto simp: Let_def update_conv')
  next
    case False
    with assms(3) xp show ?thesis
      unfolding checkForGameEnding_ends [OF assms(1,2)]
      by (auto simp: Let_def update_conv')
  qed
qed

subsection \<open>The projection\<close>




lemma controllerOf_Some: "controllerOf occupants slot = Some p \<Longrightarrow> slot = Some p"
  by (auto simp: controllerOf_def find_Some_iff split: if_splits)




lemma ourPieceOf_slot:
  "ourPieceOf players occupants ourPlayer (state g) = Some p \<Longrightarrow> slotOf p g = Some ourPlayer"
  by (auto simp: ourPieceOf_def gamePieceOf_def slotOf_def dest: controllerOf_Some
      split: if_splits sum.splits)


subsection \<open>The shape of the grids\<close>

lemma invShape_same:
  "privateBoards g' = privateBoards g \<Longrightarrow> publiclyVisible (state g') = publiclyVisible (state g)
   \<Longrightarrow> invShape g \<Longrightarrow> invShape g'"
  unfolding invShape_def by (erule ssubst, erule ssubst)

lemma invShape_fresh:
  "privateBoards g = createEmptyPrivateBoards \<Longrightarrow>
   publiclyVisible (state g) = createEmptyVisibility \<Longrightarrow> invShape g"
  by (simp add: invShape_def createEmptyPrivateBoards_def createEmptyVisibility_def)

lemma invShape_placeMove: "invShape g \<Longrightarrow> invShape (fst (placeMove gm g))"
proof (cases "snd (placeMove gm g)")
  case (Inl e)
  assume "invShape g"
  moreover from Inl have "placeMove gm g = (fst (placeMove gm g), Inl e)"
    by (cases "placeMove gm g") simp
  then have "fst (placeMove gm g) = g"
    by (rule placeMove_Inl)
  ultimately show ?thesis by simp
next
  case (Inr p)
  assume inv: "invShape g"
  from Inr have "placeMove gm g = (fst (placeMove gm g), Inr p)"
    by (cases "placeMove gm g") simp
  then show ?thesis
  proof (cases rule: placeMove_InrE)
    case claim
    with inv validateMove_InrD(5,6) [OF claim(1)] show ?thesis
      by (simp add: invShape_claimCell)
  next
    case (collide m)
    with inv validateMove_InrD(5,6) [OF collide(1)] show ?thesis
      by (simp add: invShape_collide)
  qed
qed

lemma invShape_applyMove: "invShape g \<Longrightarrow> invShape (fst (applyMove gm g))"
proof -
  assume inv: "invShape g"
  have "invShape (checkForGameEnding (checkForWins (fst (placeMove gm g))))"
    by (rule invShape_same [OF _ _ invShape_placeMove [OF inv]])
       (simp_all add: checkForGameEnding_frame checkForWins_frame)
  with inv show ?thesis
    by (cases "snd (placeMove gm g)") (simp_all add: applyMove_eq)
qed

lemma invShape_join: "invShape g \<Longrightarrow> invShape (fst (join tjoin p g))"
  by (rule invShape_same [OF join_games_only(1,2)])

lemma invShape_leave: "invShape g \<Longrightarrow> invShape (fst (leave tleave p g))"
proof -
  assume inv: "invShape g"
  have "invShape (leaveOver tleave p g)"
    by (rule invShape_same [OF _ _ inv]) (simp_all add: leaveOver_def)
  moreover have "invShape (resetGameState g')" for g'
    by (rule invShape_fresh) (simp_all add: resetGameState_def)
  ultimately show ?thesis
    using inv by (simp add: leave_cases)
qed

lemma reachable_invShape: "reachable tjoin tleave g \<Longrightarrow> invShape g"
proof (induction rule: reachable.induct)
  case (reachable_new gid)
  show ?case
    by (rule invShape_fresh) (simp_all add: newQuantumTicTacToeGame_def)
next
  case (reachable_exec g cmd)
  then show ?case
    by (cases cmd) (simp_all add: exec_def invShape_join invShape_leave invShape_applyMove)
qed

subsection \<open>A played cell has an occupant\<close>

lemma played_occupant:
  assumes "invLog g" "inRange r" "inRange c" "played g p b r c"
  shows "existingOccupant g b r c \<noteq> None"
proof
  assume "existingOccupant g b r c = None"
  moreover from assms(1-3) have
    "case existingOccupant g b r c of None \<Rightarrow> (\<forall>p. \<not> played g p b r c)
       | Some m \<Rightarrow> played g (gamePiece m) b r c"
    by (simp add: invLog_def)
  ultimately have "\<not> played g p b r c"
    by simp
  with assms(4) show False by simp
qed

subsection \<open>Scores under win detection\<close>

lemma lineAt_checkBoard:
  "b' \<noteq> b \<Longrightarrow> lineAt p (fst (checkBoard b gc)) b' = lineAt p (fst gc) b'"
  by (simp add: lineAt_def threeInARow_code checkBoard_boardWinners checkBoard_frame)

lemma scoreOf_checkBoard:
  assumes "quiet (otherPiece p) (fst gc)"
  shows "scoreOf p (fst (checkBoard b gc)) = scoreOf p (fst gc) + lineAt p (fst gc) b"
    and "scoreOf (otherPiece p) (fst (checkBoard b gc)) = scoreOf (otherPiece p) (fst gc)"
proof -
  from assms have q: "\<And>b. boardWinners (fst gc) b = None \<Longrightarrow>
      \<not> hasThreeInARow (privateBoards (fst gc) (otherPiece p) b)"
    by (simp add: quiet_def)
  show "scoreOf p (fst (checkBoard b gc)) = scoreOf p (fst gc) + lineAt p (fst gc) b"
    using q [of b]
    by (cases p)
       (auto simp: scoreOf_def otherPiece_def lineAt_def threeInARow_code checkBoard_xScore
          checkBoard_oScore)
  show "scoreOf (otherPiece p) (fst (checkBoard b gc)) = scoreOf (otherPiece p) (fst gc)"
    using q [of b]
    by (cases p)
       (auto simp: scoreOf_def otherPiece_def lineAt_def threeInARow_code checkBoard_xScore
          checkBoard_oScore)
qed

lemma winsChecked_scoreOf:
  assumes "quiet (otherPiece p) g"
  shows "scoreOf p (fst (winsChecked g)) = scoreOf p g + newLines p g"
    and "scoreOf (otherPiece p) (fst (winsChecked g)) = scoreOf (otherPiece p) g"
proof -
  have q0: "quiet (otherPiece p) (fst (g, False))"
    using assms by simp
  have q1: "quiet (otherPiece p) (fst (checkBoard A (g, False)))"
    by (rule quiet_checkBoard [OF q0])
  have q2: "quiet (otherPiece p) (fst (checkBoard B (checkBoard A (g, False))))"
    by (rule quiet_checkBoard [OF q1])
  show "scoreOf p (fst (winsChecked g)) = scoreOf p g + newLines p g"
    unfolding winsChecked_def fold_BOARD_IDS newLines_def
    by (simp add: scoreOf_checkBoard(1) [OF q2] scoreOf_checkBoard(1) [OF q1]
        scoreOf_checkBoard(1) [OF q0] lineAt_checkBoard)
  show "scoreOf (otherPiece p) (fst (winsChecked g)) = scoreOf (otherPiece p) g"
    unfolding winsChecked_def fold_BOARD_IDS
    by (simp add: scoreOf_checkBoard(2) [OF q2] scoreOf_checkBoard(2) [OF q1]
        scoreOf_checkBoard(2) [OF q0])
qed

lemma checkForWins_scoreOf:
  assumes "quiet (otherPiece p) g"
  shows "scoreOf p (checkForWins g) = scoreOf p g + newLines p g"
    and "scoreOf (otherPiece p) (checkForWins g) = scoreOf (otherPiece p) g"
proof -
  have "scoreOf q (checkForWins g) = scoreOf q (fst (winsChecked g))" for q
    by (cases q) (simp_all add: scoreOf_def checkForWins_private_scores)
  with winsChecked_scoreOf [OF assms] show
    "scoreOf p (checkForWins g) = scoreOf p g + newLines p g"
    "scoreOf (otherPiece p) (checkForWins g) = scoreOf (otherPiece p) g"
    by simp_all
qed

section \<open>The claims\<close>

subsection \<open>C1: the order of the rejections\<close>

text \<open>
  C1. On every reachable game \<open>applyMove\<close> throws exactly the first of these that applies,
  and accepts the move when none does: \<open>GAME_NOT_IN_PROGRESS\<close> when the status is not
  \<open>IN_PROGRESS\<close>; \<open>PLAYER_NOT_IN_GAME\<close> when the mover holds neither slot;
  \<open>MOVE_NOT_YOUR_TURN\<close> when the mover's piece is not the one whose turn it is by the
  parity of the number of accepted moves in the log (even: X, odd: O);
  \<open>BOARD_POSITION_NOT_VALID\<close> when row or column is outside 0..2, and again when the
  board has an assigned winner; \<open>BOARD_POSITION_NOT_EMPTY\<close> when the mover's piece
  occupies the cell in its hidden occupancy grid. The second \<open>BOARD_POSITION_NOT_EMPTY\<close>
  of \<open>applyMove\<close>, on the sub-board's recorded occupant, never fires in a reachable game.
\<close>

theorem applyMove_rejections_in_order:
  assumes "keepsMoves tjoin" "keepsMoves tleave" "reachable tjoin tleave g"
  shows "snd (applyMove gm g) =
     (if status (state g) \<noteq> IN_PROGRESS then Some GAME_NOT_IN_PROGRESS_MESSAGE
      else if x_id (state g) \<noteq> Some (playerID gm) \<and> o_id (state g) \<noteq> Some (playerID gm)
      then Some PLAYER_NOT_IN_GAME_MESSAGE
      else if moverPiece gm g \<noteq> (if even (length (moves (state g))) then PieceX else PieceO)
      then Some MOVE_NOT_YOUR_TURN_MESSAGE
      else if row (move gm) \<notin> {0..2} \<or> col (move gm) \<notin> {0..2}
      then Some BOARD_POSITION_NOT_VALID_MESSAGE
      else if boardWinners g (board (move gm)) \<noteq> None
      then Some BOARD_POSITION_NOT_VALID_MESSAGE
      else if cell (privateBoards g (moverPiece gm g) (board (move gm))) (row (move gm)) (col (move gm))
      then Some BOARD_POSITION_NOT_EMPTY_MESSAGE
      else None)"
proof -
  from assms have inv: "boardInv g"
    by (simp add: reachable_boardInv)
  then have "invOcc g" and cnt: "moveCount g = length (moves (state g))"
    by (simp_all add: boardInv_def invCount_def)
  then have "snd (applyMove gm g) = (case validateMove gm g of Inl e \<Rightarrow> Some e | Inr p \<Rightarrow> None)"
    by (simp add: applyMove_error)
  then show ?thesis
    unfolding validateMove_chain cnt by simp
qed

theorem applyMove_rejections_in_order_witness:
  "snd (applyMove \<lparr>playerID = ''p2'', gameID = ''game'',
                    move = \<lparr>gamePiece = PieceO, row = 3, col = 0, board = A\<rparr>\<rparr>
          (play [Join ''p1'', Join ''p2'', moveOf ''p1'' A 0 0]))
     = Some BOARD_POSITION_NOT_VALID_MESSAGE"
proof -
  have "status (state (play [Join ''p1'', Join ''p2'', moveOf ''p1'' A 0 0])) = IN_PROGRESS"
       "o_id (state (play [Join ''p1'', Join ''p2'', moveOf ''p1'' A 0 0])) = Some ''p2''"
       "x_id (state (play [Join ''p1'', Join ''p2'', moveOf ''p1'' A 0 0])) = Some ''p1''"
       "length (moves (state (play [Join ''p1'', Join ''p2'', moveOf ''p1'' A 0 0]))) = 1"
    by code_simp+
  with applyMove_rejections_in_order [OF keepsMoves_join keepsMoves_leave
      reachable_play [of "[Join ''p1'', Join ''p2'', moveOf ''p1'' A 0 0]"],
      where gm = "\<lparr>playerID = ''p2'', gameID = ''game'',
           move = \<lparr>gamePiece = PieceO, row = 3, col = 0, board = A\<rparr>\<rparr>"]
  show ?thesis by (simp add: moverPiece_def)
qed

subsection \<open>C2: the end of the game\<close>

text \<open>
  C2. After an accepted \<open>applyMove\<close> on a reachable game, the status is \<open>OVER\<close> if and
  only if each of the three boards has an assigned winner or nine recorded sub-board
  moves, and it is \<open>IN_PROGRESS\<close> otherwise. When it is \<open>OVER\<close>, the winner is the player
  in the X slot if \<open>xScore > oScore\<close>, the player in the O slot if \<open>oScore > xScore\<close>, and
  undefined on a tie; and the result record carries the game's id and maps the player
  of each occupied slot to that piece's final score, and no one else to anything.
\<close>

theorem game_over_iff_boards_exhausted:
  assumes "keepsMoves tjoin" "keepsMoves tleave" "reachable tjoin tleave g"
    and "snd (applyMove gm g) = None"
  shows "(status (state (fst (applyMove gm g))) = OVER) =
           (\<forall>b. boardWinners (fst (applyMove gm g)) b \<noteq> None \<or>
                length (moves (games (fst (applyMove gm g)) b)) = 9)
       \<and> (status (state (fst (applyMove gm g))) = OVER \<or>
          status (state (fst (applyMove gm g))) = IN_PROGRESS)
       \<and> (status (state (fst (applyMove gm g))) = OVER \<longrightarrow>
            winner (state (fst (applyMove gm g))) =
              (if xScore (state (fst (applyMove gm g))) > oScore (state (fst (applyMove gm g)))
               then x_id (state (fst (applyMove gm g)))
               else if oScore (state (fst (applyMove gm g))) > xScore (state (fst (applyMove gm g)))
               then o_id (state (fst (applyMove gm g)))
               else None)
            \<and> (\<exists>sc. result (fst (applyMove gm g))
                       = Some \<lparr>result_gameID = id_game (fst (applyMove gm g)), scores = sc\<rparr> \<and>
                  (\<forall>pid. map_of sc pid =
                     (if truthy (o_id (state (fst (applyMove gm g)))) \<and>
                         o_id (state (fst (applyMove gm g))) = Some pid
                      then Some (oScore (state (fst (applyMove gm g))))
                      else if truthy (x_id (state (fst (applyMove gm g)))) \<and>
                              x_id (state (fst (applyMove gm g))) = Some pid
                      then Some (xScore (state (fst (applyMove gm g))))
                      else None))))"
proof -
  let ?g1 = "fst (placeMove gm g)"
  let ?w = "checkForWins ?g1"
  let ?g' = "fst (applyMove gm g)"
  from assms(4) obtain p where acc: "snd (placeMove gm g) = Inr p"
    by (cases "snd (placeMove gm g)") (simp_all add: applyMove_eq)
  then have g': "?g' = checkForGameEnding ?w"
    by (simp add: applyMove_eq)
  from acc have "placeMove gm g = (?g1, Inr p)"
    by (cases "placeMove gm g") simp
  then have "validateMove gm g = Inr p"
    by (cases rule: placeMove_InrE)
  then have "status (state g) = IN_PROGRESS"
    by (rule validateMove_InrD)
  then have stw: "status (state ?w) = IN_PROGRESS"
    by (simp add: checkForWins_frame placeMove_slots)
  from assms(3) have "reachable tjoin tleave (fst (exec tjoin tleave (Move gm) g))"
    by (rule reachable_exec)
  then have r': "reachable tjoin tleave ?g'"
    by (simp add: exec_def)
  with assms(1,2) have "boardInv ?g'"
    by (simp add: reachable_boardInv)
  then have len: "\<And>b. length (moves (games ?g' b)) \<le> 9"
    and sc: "xScore (state ?g') = xScore' ?g'" "oScore (state ?g') = oScore' ?g'"
    by (simp_all add: boardInv_def invSub_length invScores_def)
  from assms(3) have "scoreInv g"
    by (rule reachable_scoreInv)
  then have "truthy (x_id (state g))"
    using \<open>status (state g) = IN_PROGRESS\<close> by (simp add: scoreInv_def invSlots_def)
  then have tx: "truthy (x_id (state ?w))"
    by (simp add: checkForWins_frame placeMove_slots)
  have fr: "boardWinners ?g' = boardWinners ?w" "games ?g' = games ?w"
    "xScore' ?g' = xScore' ?w" "oScore' ?g' = oScore' ?w"
    "x_id (state ?g') = x_id (state ?w)" "o_id (state ?g') = o_id (state ?w)"
    "id_game ?g' = id_game ?w"
    by (simp_all add: g' checkForGameEnding_frame)
  have "(status (state ?g') = OVER) =
          (\<forall>b. boardWinners ?w b \<noteq> None \<or> \<not> length (moves (games ?w b)) < 9)"
    unfolding g' using stw by (intro checkForGameEnding_over_iff) simp
  also have "\<dots> = (\<forall>b. boardWinners ?g' b \<noteq> None \<or> length (moves (games ?g' b)) = 9)"
  proof -
    have "\<And>b. (\<not> length (moves (games ?w b)) < 9) = (length (moves (games ?g' b)) = 9)"
      using len by (auto simp: fr not_less le_antisym)
    then show ?thesis
      by (simp add: fr)
  qed
  finally have over:
    "(status (state ?g') = OVER) =
       (\<forall>b. boardWinners ?g' b \<noteq> None \<or> length (moves (games ?g' b)) = 9)" .
  have st: "status (state ?g') = OVER \<or> status (state ?g') = IN_PROGRESS"
    using checkForGameEnding_status [of ?w] stw by (auto simp: g')
  have fin: "status (state ?g') = OVER \<longrightarrow>
      winner (state ?g') =
        (if xScore (state ?g') > oScore (state ?g') then x_id (state ?g')
         else if oScore (state ?g') > xScore (state ?g') then o_id (state ?g')
         else None)
      \<and> (\<exists>sc. result ?g' = Some \<lparr>result_gameID = id_game ?g', scores = sc\<rparr> \<and>
            (\<forall>pid. map_of sc pid =
               (if truthy (o_id (state ?g')) \<and> o_id (state ?g') = Some pid
                then Some (oScore (state ?g'))
                else if truthy (x_id (state ?g')) \<and> x_id (state ?g') = Some pid
                then Some (xScore (state ?g'))
                else None)))"
  proof
    assume "status (state ?g') = OVER"
    then have o: "status (state (checkForGameEnding ?w)) = OVER"
      by (simp add: g')
    from stw have n: "status (state ?w) \<noteq> OVER"
      by simp
    from checkForGameEnding_result [OF n o tx] obtain sc where
      res: "result (checkForGameEnding ?w) = Some \<lparr>result_gameID = id_game ?w, scores = sc\<rparr>"
      and m: "\<And>pid. map_of sc pid =
        (if truthy (o_id (state ?w)) \<and> o_id (state ?w) = Some pid then Some (oScore' ?w)
         else if x_id (state ?w) = Some pid then Some (xScore' ?w)
         else None)"
      by blast
    have win: "winner (state ?g') =
        (if xScore (state ?g') > oScore (state ?g') then x_id (state ?g')
         else if oScore (state ?g') > xScore (state ?g') then o_id (state ?g')
         else None)"
      unfolding sc fr using checkForGameEnding_winner [OF n o] by (simp add: g' [symmetric])
    have res': "result ?g' = Some \<lparr>result_gameID = id_game ?g', scores = sc\<rparr>"
      unfolding fr using res by (simp add: g' [symmetric])
    have m': "\<forall>pid. map_of sc pid =
               (if truthy (o_id (state ?g')) \<and> o_id (state ?g') = Some pid
                then Some (oScore (state ?g'))
                else if truthy (x_id (state ?g')) \<and> x_id (state ?g') = Some pid
                then Some (xScore (state ?g'))
                else None)"
      unfolding sc fr using m tx by auto
    from win res' m' show "winner (state ?g') =
        (if xScore (state ?g') > oScore (state ?g') then x_id (state ?g')
         else if oScore (state ?g') > xScore (state ?g') then o_id (state ?g')
         else None)
      \<and> (\<exists>sc. result ?g' = Some \<lparr>result_gameID = id_game ?g', scores = sc\<rparr> \<and>
            (\<forall>pid. map_of sc pid =
               (if truthy (o_id (state ?g')) \<and> o_id (state ?g') = Some pid
                then Some (oScore (state ?g'))
                else if truthy (x_id (state ?g')) \<and> x_id (state ?g') = Some pid
                then Some (xScore (state ?g'))
                else None)))"
      by blast
  qed
  from over st fin show ?thesis
    by (intro conjI)
qed

theorem game_over_iff_boards_exhausted_witness:
  "status (state (fst (applyMove
      \<lparr>playerID = ''p1'', gameID = ''game'',
        move = \<lparr>gamePiece = PieceX, row = 2, col = 2, board = B\<rparr>\<rparr>
      (play [Join ''p1'', Join ''p2'', moveOf ''p1'' A 0 0, moveOf ''p2'' B 0 0,
             moveOf ''p1'' A 0 1, moveOf ''p2'' C 0 0, moveOf ''p1'' A 0 2, moveOf ''p2'' C 1 0,
             moveOf ''p1'' B 2 0, moveOf ''p2'' C 2 0, moveOf ''p1'' B 2 1,
             moveOf ''p2'' B 0 1])))) = OVER
   \<and> winner (state (fst (applyMove
      \<lparr>playerID = ''p1'', gameID = ''game'',
        move = \<lparr>gamePiece = PieceX, row = 2, col = 2, board = B\<rparr>\<rparr>
      (play [Join ''p1'', Join ''p2'', moveOf ''p1'' A 0 0, moveOf ''p2'' B 0 0,
             moveOf ''p1'' A 0 1, moveOf ''p2'' C 0 0, moveOf ''p1'' A 0 2, moveOf ''p2'' C 1 0,
             moveOf ''p1'' B 2 0, moveOf ''p2'' C 2 0, moveOf ''p1'' B 2 1,
             moveOf ''p2'' B 0 1])))) = Some ''p1''"
proof -
  let ?g = "play [Join ''p1'', Join ''p2'', moveOf ''p1'' A 0 0, moveOf ''p2'' B 0 0,
             moveOf ''p1'' A 0 1, moveOf ''p2'' C 0 0, moveOf ''p1'' A 0 2, moveOf ''p2'' C 1 0,
             moveOf ''p1'' B 2 0, moveOf ''p2'' C 2 0, moveOf ''p1'' B 2 1,
             moveOf ''p2'' B 0 1]"
  let ?gm = "\<lparr>playerID = ''p1'', gameID = ''game'',
              move = \<lparr>gamePiece = PieceX, row = 2, col = 2, board = B\<rparr>\<rparr>"
  have acc: "snd (applyMove ?gm ?g) = None"
    by code_simp
  have facts: "status (state (fst (applyMove ?gm ?g))) = OVER"
    "xScore (state (fst (applyMove ?gm ?g))) = 2"
    "oScore (state (fst (applyMove ?gm ?g))) = 1"
    "x_id (state (fst (applyMove ?gm ?g))) = Some ''p1''"
    by code_simp+
  from game_over_iff_boards_exhausted [OF keepsMoves_join keepsMoves_leave
      reachable_play [of "[Join ''p1'', Join ''p2'', moveOf ''p1'' A 0 0, moveOf ''p2'' B 0 0,
             moveOf ''p1'' A 0 1, moveOf ''p2'' C 0 0, moveOf ''p1'' A 0 2, moveOf ''p2'' C 1 0,
             moveOf ''p1'' B 2 0, moveOf ''p2'' C 2 0, moveOf ''p1'' B 2 1,
             moveOf ''p2'' B 0 1]"] acc]
  have "status (state (fst (applyMove ?gm ?g))) = OVER \<longrightarrow>
        winner (state (fst (applyMove ?gm ?g))) =
          (if xScore (state (fst (applyMove ?gm ?g))) > oScore (state (fst (applyMove ?gm ?g)))
           then x_id (state (fst (applyMove ?gm ?g)))
           else if oScore (state (fst (applyMove ?gm ?g))) > xScore (state (fst (applyMove ?gm ?g)))
           then o_id (state (fst (applyMove ?gm ?g)))
           else None)"
    by blast
  with facts show ?thesis
    by simp
qed

subsection \<open>C3: public visibility\<close>

text \<open>
  C3. In every reachable game, and for every board and every row and column in 0..2,
  \<open>publiclyVisible[b][r][c]\<close> is true if and only if both pieces have played the cell,
  that is, the move log holds a move of X and a move of O on it. A cell that is visible
  is still visible after any command that leaves the game \<open>IN_PROGRESS\<close>.
\<close>

theorem visible_iff_collision:
  assumes "keepsMoves tjoin" "keepsMoves tleave" "reachable tjoin tleave g"
  shows "(\<forall>b r c. inRange r \<and> inRange c \<longrightarrow>
            cell (publiclyVisible (state g) b) r c =
              (played g PieceX b r c \<and> played g PieceO b r c))
       \<and> (\<forall>cmd b r c.
            inRange r \<and> inRange c \<and> cell (publiclyVisible (state g) b) r c \<and>
            status (state (fst (exec tjoin tleave cmd g))) = IN_PROGRESS
            \<longrightarrow> cell (publiclyVisible (state (fst (exec tjoin tleave cmd g))) b) r c)"
proof -
  have vis: "\<And>g b r c. reachable tjoin tleave g \<Longrightarrow> inRange r \<Longrightarrow> inRange c \<Longrightarrow>
      cell (publiclyVisible (state g) b) r c = (played g PieceX b r c \<and> played g PieceO b r c)"
    using assms(1,2) reachable_boardInv by (simp add: boardInv_def invVis_def)
  have "\<forall>cmd b r c.
            inRange r \<and> inRange c \<and> cell (publiclyVisible (state g) b) r c \<and>
            status (state (fst (exec tjoin tleave cmd g))) = IN_PROGRESS
            \<longrightarrow> cell (publiclyVisible (state (fst (exec tjoin tleave cmd g))) b) r c"
  proof (intro allI impI, elim conjE)
    fix cmd b r c
    let ?g' = "fst (exec tjoin tleave cmd g)"
    assume rng: "inRange r" "inRange c" and v: "cell (publiclyVisible (state g) b) r c"
      and st: "status (state ?g') = IN_PROGRESS"
    from v vis [OF assms(3) rng] have "played g PieceX b r c" "played g PieceO b r c"
      by simp_all
    with exec_log [OF st] have "played ?g' PieceX b r c" "played ?g' PieceO b r c"
      by (blast intro: played_mono)+
    moreover have "reachable tjoin tleave ?g'"
      using assms(3) by (rule reachable_exec)
    ultimately show "cell (publiclyVisible (state ?g') b) r c"
      using vis [of ?g' r c b] rng by simp
  qed
  with vis [OF assms(3)] show ?thesis
    by simp
qed

theorem visible_iff_collision_witness:
  "cell (publiclyVisible (state (play [Join ''p1'', Join ''p2'', moveOf ''p1'' A 0 0,
          moveOf ''p2'' A 0 0])) A) 0 0
   \<and> played (play [Join ''p1'', Join ''p2'', moveOf ''p1'' A 0 0, moveOf ''p2'' A 0 0])
        PieceX A 0 0
   \<and> played (play [Join ''p1'', Join ''p2'', moveOf ''p1'' A 0 0, moveOf ''p2'' A 0 0])
        PieceO A 0 0
   \<and> \<not> cell (publiclyVisible (state (play [Join ''p1'', Join ''p2'', moveOf ''p1'' A 0 0,
          moveOf ''p2'' A 0 0])) B) 0 0"
proof -
  let ?g = "play [Join ''p1'', Join ''p2'', moveOf ''p1'' A 0 0, moveOf ''p2'' A 0 0]"
  have rng: "inRange 0"
    by (simp add: inRange_def)
  have log: "played ?g PieceX A 0 0" "played ?g PieceO A 0 0" "\<not> played ?g PieceX B 0 0"
    by code_simp+
  from visible_iff_collision [OF keepsMoves_join keepsMoves_leave
      reachable_play [of "[Join ''p1'', Join ''p2'', moveOf ''p1'' A 0 0, moveOf ''p2'' A 0 0]"]]
  have "\<And>b. cell (publiclyVisible (state ?g) b) 0 0 = (played ?g PieceX b 0 0 \<and> played ?g PieceO b 0 0)"
    using rng by blast
  with log show ?thesis
    by simp
qed

subsection \<open>C4: status transitions\<close>

text \<open>
  C4, as amended. \<open>applyMove\<close> changes the status only from \<open>IN_PROGRESS\<close> to \<open>OVER\<close>;
  in particular it leaves a game that is \<open>OVER\<close> over. \<open>join\<close> changes the status only
  to \<open>IN_PROGRESS\<close>, when it fills the O slot of a game whose X slot is occupied,
  whatever the status was. \<open>leave\<close> changes the status only to \<open>OVER\<close>, when both slots
  are occupied, or to \<open>WAITING_TO_START\<close> with an empty move log, when they are not:
  the reset. So \<open>OVER\<close> is permanent under \<open>applyMove\<close>, and is left only by a join
  into the free O slot or by the reset. The game is any game whose grids are 3 by 3.
\<close>

theorem status_transitions:
  "invShape g \<Longrightarrow>
   (status (state (fst (applyMove gm g))) = status (state g) \<or>
      (status (state g) = IN_PROGRESS \<and> status (state (fst (applyMove gm g))) = OVER))
   \<and> (status (state (fst (join tjoin p g))) = status (state g) \<or>
      (status (state (fst (join tjoin p g))) = IN_PROGRESS \<and> truthy (x_id (state g)) \<and>
       \<not> truthy (o_id (state g)) \<and> o_id (state (fst (join tjoin p g))) = Some p))
   \<and> (status (state (fst (leave tleave p g))) = status (state g) \<or>
      (status (state (fst (leave tleave p g))) = OVER \<and>
         truthy (x_id (state g)) \<and> truthy (o_id (state g))) \<or>
      (status (state (fst (leave tleave p g))) = WAITING_TO_START \<and>
         \<not> (truthy (x_id (state g)) \<and> truthy (o_id (state g))) \<and>
         moves (state (fst (leave tleave p g))) = []))"
  using applyMove_status [of gm g] join_status [of tjoin p g] leave_status [of tleave p g]
  by blast

theorem status_transitions_witness:
  "status (state (play [Join ''p1'', Join ''p2'', Leave ''p2''])) = OVER
   \<and> status (state (fst (applyMove \<lparr>playerID = ''p1'', gameID = ''game'',
                       move = \<lparr>gamePiece = PieceX, row = 0, col = 0, board = A\<rparr>\<rparr>
          (play [Join ''p1'', Join ''p2'', Leave ''p2''])))) = OVER"
proof -
  have over: "status (state (play [Join ''p1'', Join ''p2'', Leave ''p2''])) = OVER"
    by code_simp
  have shape: "invShape (play [Join ''p1'', Join ''p2'', Leave ''p2''])"
    by (rule reachable_invShape [OF reachable_play])
  from over status_transitions [OF shape, where gm = "\<lparr>playerID = ''p1'', gameID = ''game'',
         move = \<lparr>gamePiece = PieceX, row = 0, col = 0, board = A\<rparr>\<rparr>"]
  show ?thesis by simp
qed

text \<open>
  The claim as stated fails: two players join, O leaves and the game is over; a third
  player joins into the free O slot and the game is in progress again, on the same
  object.
\<close>

theorem over_is_left_counterexample:
  "status (state (play [Join ''p1'', Join ''p2'', Leave ''p2''])) = OVER
   \<and> status (state (play [Join ''p1'', Join ''p2'', Leave ''p2'', Join ''p3''])) = IN_PROGRESS
   \<and> status (state (play [Join ''p1'', Join ''p2'', Leave ''p2'', Leave ''p1'']))
       = WAITING_TO_START"
  by code_simp

subsection \<open>C5: one move per piece and cell\<close>

text \<open>
  C5 fails on the code. A piece that collides is not entered in its hidden occupancy
  grid, which is all \<open>_validateMove\<close> looks at, and the sub-board's move list holds the
  other piece for that cell, so the piece can play the collided cell again: O's second
  move on A(0,0) is accepted and stands twice in the move log. The repository's own
  test of this sequence expects \<open>BOARD_POSITION_NOT_EMPTY_MESSAGE\<close>.
\<close>

theorem collided_cell_replayed:
  "snd (exec TicTacToeGame_join TicTacToeGame_leave (moveOf ''p2'' A 0 0)
         (play [Join ''p1'', Join ''p2'', moveOf ''p1'' A 0 0, moveOf ''p2'' A 0 0,
                moveOf ''p1'' B 1 1])) = None
   \<and> moves (state (play [Join ''p1'', Join ''p2'', moveOf ''p1'' A 0 0, moveOf ''p2'' A 0 0,
                moveOf ''p1'' B 1 1, moveOf ''p2'' A 0 0]))
     = [\<lparr>gamePiece = PieceX, row = 0, col = 0, board = A\<rparr>,
        \<lparr>gamePiece = PieceO, row = 0, col = 0, board = A\<rparr>,
        \<lparr>gamePiece = PieceX, row = 1, col = 1, board = B\<rparr>,
        \<lparr>gamePiece = PieceO, row = 0, col = 0, board = A\<rparr>]"
  by code_simp

subsection \<open>C6: scores\<close>

text \<open>
  C6, as amended. In every reachable game \<open>xScore + oScore \<le> 3\<close>, and each score is
  the number of boards whose assigned winner is that piece, so a board gives one point
  to its single winner. A command never lowers a score and never changes a board's
  assigned winner, except a \<open>leave\<close> by a player of a game with fewer than two occupied
  slots: that one resets the game, and both scores with it, to zero.
\<close>

theorem scores_bounded_monotone_until_reset:
  assumes "reachable tjoin tleave g"
  shows "xScore (state g) + oScore (state g) \<le> 3
       \<and> xScore (state g) = wonBy g PieceX
       \<and> oScore (state g) = wonBy g PieceO
       \<and> (\<forall>cmd.
            if resets cmd g
            then xScore (state (fst (exec tjoin tleave cmd g))) = 0
               \<and> oScore (state (fst (exec tjoin tleave cmd g))) = 0
            else xScore (state g) \<le> xScore (state (fst (exec tjoin tleave cmd g)))
               \<and> oScore (state g) \<le> oScore (state (fst (exec tjoin tleave cmd g)))
               \<and> (\<forall>b p. boardWinners g b = Some p \<longrightarrow>
                          boardWinners (fst (exec tjoin tleave cmd g)) b = Some p))"
proof -
  from assms have inv: "scoreInv g"
    by (rule reachable_scoreInv)
  then have sc: "xScore (state g) = wonBy g PieceX" "oScore (state g) = wonBy g PieceO"
    by (simp_all add: scoreInv_def invScores_def)
  with wonBy_sum [of g] have "xScore (state g) + oScore (state g) \<le> 3"
    by simp
  with sc exec_scores_mono [OF inv] exec_resets show ?thesis
    by simp
qed

theorem scores_bounded_monotone_until_reset_witness:
  "xScore (state (play [Join ''p1'', Join ''p2'', moveOf ''p1'' A 0 0, moveOf ''p2'' B 0 0,
        moveOf ''p1'' A 0 1, moveOf ''p2'' B 0 1, moveOf ''p1'' A 0 2])) = 1
   \<and> wonBy (play [Join ''p1'', Join ''p2'', moveOf ''p1'' A 0 0, moveOf ''p2'' B 0 0,
        moveOf ''p1'' A 0 1, moveOf ''p2'' B 0 1, moveOf ''p1'' A 0 2]) PieceX = 1
   \<and> xScore (state (play [Join ''p1'', Join ''p2'', moveOf ''p1'' A 0 0, moveOf ''p2'' B 0 0,
        moveOf ''p1'' A 0 1, moveOf ''p2'' B 0 1, moveOf ''p1'' A 0 2]))
     + oScore (state (play [Join ''p1'', Join ''p2'', moveOf ''p1'' A 0 0, moveOf ''p2'' B 0 0,
        moveOf ''p1'' A 0 1, moveOf ''p2'' B 0 1, moveOf ''p1'' A 0 2])) \<le> 3"
proof -
  have "xScore (state (play [Join ''p1'', Join ''p2'', moveOf ''p1'' A 0 0, moveOf ''p2'' B 0 0,
        moveOf ''p1'' A 0 1, moveOf ''p2'' B 0 1, moveOf ''p1'' A 0 2])) = 1"
    by code_simp
  with scores_bounded_monotone_until_reset [OF reachable_play,
      of "[Join ''p1'', Join ''p2'', moveOf ''p1'' A 0 0, moveOf ''p2'' B 0 0,
        moveOf ''p1'' A 0 1, moveOf ''p2'' B 0 1, moveOf ''p1'' A 0 2]"]
  show ?thesis by simp
qed

text \<open>
  The claim as stated fails: X wins board A, O leaves (the game is over), X leaves (the
  game is reset), and X's score has gone from 1 to 0 on the same game object.
\<close>

theorem scores_decrease_counterexample:
  "xScore (state (play [Join ''p1'', Join ''p2'', moveOf ''p1'' A 0 0, moveOf ''p2'' B 0 0,
        moveOf ''p1'' A 0 1, moveOf ''p2'' B 0 1, moveOf ''p1'' A 0 2, Leave ''p2''])) = 1
   \<and> xScore (state (play [Join ''p1'', Join ''p2'', moveOf ''p1'' A 0 0, moveOf ''p2'' B 0 0,
        moveOf ''p1'' A 0 1, moveOf ''p2'' B 0 1, moveOf ''p1'' A 0 2, Leave ''p2'',
        Leave ''p1''])) = 0"
  by code_simp

subsection \<open>C7: a rejected move changes nothing\<close>

text \<open>
  C7. Whenever \<open>applyMove\<close> throws, the game it leaves behind is the game it was given:
  every field of the object (move log, hidden occupancy, scores, visibility, status,
  slots, the three sub-boards, result) is unchanged. Both \<open>throw\<close>s of the method, the
  six in \<open>_validateMove\<close> and the one on the occupant of the cell, come before its first
  assignment. The game is any game whose grids are 3 by 3, reachable or not.
\<close>

theorem applyMove_rejected_unchanged:
  "invShape g \<Longrightarrow> snd (applyMove gm g) = Some e \<Longrightarrow> fst (applyMove gm g) = g"
proof -
  assume rejected: "snd (applyMove gm g) = Some e"
  obtain g1 res where pm: "placeMove gm g = (g1, res)"
    by (cases "placeMove gm g")
  show ?thesis
  proof (cases res)
    case (Inl e')
    with pm have "g1 = g" by (simp add: placeMove_Inl)
    with pm Inl show ?thesis by (simp add: applyMove_def)
  next
    case (Inr p)
    with pm rejected show ?thesis by (simp add: applyMove_def)
  qed
qed

theorem applyMove_rejected_unchanged_witness:
  "snd (applyMove \<lparr>playerID = ''p2'', gameID = ''game'',
                    move = \<lparr>gamePiece = PieceO, row = 0, col = 0, board = A\<rparr>\<rparr>
          (play [Join ''p1'', Join ''p2'']))
     = Some MOVE_NOT_YOUR_TURN_MESSAGE
   \<and> fst (applyMove \<lparr>playerID = ''p2'', gameID = ''game'',
                      move = \<lparr>gamePiece = PieceO, row = 0, col = 0, board = A\<rparr>\<rparr>
            (play [Join ''p1'', Join ''p2'']))
     = play [Join ''p1'', Join ''p2'']"
proof -
  have shape: "invShape (play [Join ''p1'', Join ''p2''])"
    by (rule reachable_invShape [OF reachable_play])
  have rejected:
    "snd (applyMove \<lparr>playerID = ''p2'', gameID = ''game'',
                      move = \<lparr>gamePiece = PieceO, row = 0, col = 0, board = A\<rparr>\<rparr>
            (play [Join ''p1'', Join ''p2'']))
       = Some MOVE_NOT_YOUR_TURN_MESSAGE"
    by code_simp
  from applyMove_rejected_unchanged [OF shape rejected] rejected show ?thesis
    by simp
qed

subsection \<open>C8: win detection\<close>

text \<open>
  C8. After an accepted move, win detection has the effect of scanning the occupancy of
  the mover's piece only, for a three-in-a-row over the eight lines. \<open>_hasThreeInARow\<close>
  answers true exactly for a grid that is true at the three cells of one of the eight
  lines: a row (i, 0), (i, 1), (i, 2), a column (0, i), (1, i), (2, i), or one of the two
  diagonals. \<open>_checkForWins\<close> scans both pieces on every board without a winner, the X
  grid first; in a reachable game no such board holds a line of the piece that did not
  move, so on the game \<open>applyMove\<close> has just updated it agrees with
  \<open>spec_checkForWins mover\<close>, the detection that scans the mover's eight lines only. A
  board without a winner on which the mover holds one of the eight lines gets the mover
  as its winner and its sub-board is marked \<open>OVER\<close> with the identity in the mover's
  slot; every other board and sub-board is left as it was; the mover's score grows by
  one for each such board, and the other score stays.
\<close>

theorem win_detection_checks_mover_only:
  assumes "reachable tjoin tleave g" and "snd (placeMove gm g) = Inr mover"
  shows "checkForWins (fst (placeMove gm g)) = spec_checkForWins mover (fst (placeMove gm g))
       \<and> applyMove gm g
           = (checkForGameEnding (spec_checkForWins mover (fst (placeMove gm g))), None)
       \<and> (\<forall>grid. hasThreeInARow grid =
             (\<exists>line \<in> set eightLines.
                cell grid (fst (line ! 0)) (snd (line ! 0)) \<and>
                cell grid (fst (line ! 1)) (snd (line ! 1)) \<and>
                cell grid (fst (line ! 2)) (snd (line ! 2))))
       \<and> (\<forall>line. (line \<in> set eightLines) =
             ((\<exists>i \<in> {0, 1, 2}.
                 line = [(i, 0), (i, 1), (i, 2)] \<or> line = [(0, i), (1, i), (2, i)])
              \<or> line = [(0, 0), (1, 1), (2, 2)] \<or> line = [(0, 2), (1, 1), (2, 0)]))
       \<and> length eightLines = 8 \<and> distinct (map set eightLines)
       \<and> (\<forall>b. boardWinners (checkForWins (fst (placeMove gm g))) b =
             (if boardWinners (fst (placeMove gm g)) b = None
                 \<and> threeInARow (privateBoards (fst (placeMove gm g)) mover b)
              then Some mover
              else boardWinners (fst (placeMove gm g)) b))
       \<and> (\<forall>b. games (checkForWins (fst (placeMove gm g))) b =
             (if boardWinners (fst (placeMove gm g)) b = None
                 \<and> threeInARow (privateBoards (fst (placeMove gm g)) mover b)
              then (games (fst (placeMove gm g)) b)
                     \<lparr>status := OVER, winner := slotOf mover (fst (placeMove gm g))\<rparr>
              else games (fst (placeMove gm g)) b))
       \<and> scoreOf mover (checkForWins (fst (placeMove gm g)))
           = scoreOf mover (fst (placeMove gm g)) + newLines mover (fst (placeMove gm g))
       \<and> scoreOf (otherPiece mover) (checkForWins (fst (placeMove gm g)))
           = scoreOf (otherPiece mover) (fst (placeMove gm g))"
proof -
  let ?g1 = "fst (placeMove gm g)"
  from assms(1) have "invLines g"
    using reachable_scoreInv by (auto simp: scoreInv_def)
  moreover from assms(2) have pm: "placeMove gm g = (?g1, Inr mover)"
    by (cases "placeMove gm g") simp
  ultimately have q: "quiet (otherPiece mover) ?g1"
    by (rule quiet_placeMove)
  have eq: "checkForWins ?g1 = spec_checkForWins mover ?g1"
    by (rule checkForWins_spec [OF q])
  have app: "applyMove gm g = (checkForGameEnding (spec_checkForWins mover ?g1), None)"
    using assms(2) eq by (simp add: applyMove_eq)
  have lines: "\<forall>grid. hasThreeInARow grid =
             (\<exists>line \<in> set eightLines.
                cell grid (fst (line ! 0)) (snd (line ! 0)) \<and>
                cell grid (fst (line ! 1)) (snd (line ! 1)) \<and>
                cell grid (fst (line ! 2)) (snd (line ! 2)))"
    by (rule allI) (rule hasThreeInARow_eightLines)
  have which: "\<forall>line. (line \<in> set eightLines) =
             ((\<exists>i \<in> {0, 1, 2}.
                 line = [(i, 0), (i, 1), (i, 2)] \<or> line = [(0, i), (1, i), (2, i)])
              \<or> line = [(0, 0), (1, 1), (2, 2)] \<or> line = [(0, 2), (1, 1), (2, 0)])"
    by (rule allI) (rule eightLines_iff)
  have bw: "\<forall>b. boardWinners (checkForWins ?g1) b =
             (if boardWinners ?g1 b = None \<and> threeInARow (privateBoards ?g1 mover b)
              then Some mover else boardWinners ?g1 b)"
    using q
    by (cases mover)
       (auto simp: checkForWins_boardWinners quiet_def otherPiece_def threeInARow_code)
  have gs: "\<forall>b. games (checkForWins ?g1) b =
             (if boardWinners ?g1 b = None \<and> threeInARow (privateBoards ?g1 mover b)
              then (games ?g1 b)\<lparr>status := OVER, winner := slotOf mover ?g1\<rparr>
              else games ?g1 b)"
    using q
    by (cases mover)
       (auto simp: checkForWins_games quiet_def otherPiece_def slotOf_def threeInARow_code)
  note sc = checkForWins_scoreOf [OF q]
  from eq app lines which length_eightLines distinct_eightLines bw gs sc show ?thesis
    by blast
qed

theorem win_detection_checks_mover_only_witness:
  "checkForWins
     (fst (placeMove \<lparr>playerID = ''p1'', gameID = ''game'',
                      move = \<lparr>gamePiece = PieceX, row = 2, col = 0, board = A\<rparr>\<rparr>
            (play [Join ''p1'', Join ''p2'', moveOf ''p1'' A 0 2, moveOf ''p2'' B 0 0,
                   moveOf ''p1'' A 1 1, moveOf ''p2'' B 0 1])))
   = spec_checkForWins PieceX
     (fst (placeMove \<lparr>playerID = ''p1'', gameID = ''game'',
                      move = \<lparr>gamePiece = PieceX, row = 2, col = 0, board = A\<rparr>\<rparr>
            (play [Join ''p1'', Join ''p2'', moveOf ''p1'' A 0 2, moveOf ''p2'' B 0 0,
                   moveOf ''p1'' A 1 1, moveOf ''p2'' B 0 1])))
   \<and> boardWinners
       (checkForWins
         (fst (placeMove \<lparr>playerID = ''p1'', gameID = ''game'',
                      move = \<lparr>gamePiece = PieceX, row = 2, col = 0, board = A\<rparr>\<rparr>
            (play [Join ''p1'', Join ''p2'', moveOf ''p1'' A 0 2, moveOf ''p2'' B 0 0,
                   moveOf ''p1'' A 1 1, moveOf ''p2'' B 0 1])))) A = Some PieceX
   \<and> scoreOf PieceX
       (checkForWins
         (fst (placeMove \<lparr>playerID = ''p1'', gameID = ''game'',
                      move = \<lparr>gamePiece = PieceX, row = 2, col = 0, board = A\<rparr>\<rparr>
            (play [Join ''p1'', Join ''p2'', moveOf ''p1'' A 0 2, moveOf ''p2'' B 0 0,
                   moveOf ''p1'' A 1 1, moveOf ''p2'' B 0 1])))) = 1"
proof -
  let ?g1 = "fst (placeMove \<lparr>playerID = ''p1'', gameID = ''game'',
                      move = \<lparr>gamePiece = PieceX, row = 2, col = 0, board = A\<rparr>\<rparr>
            (play [Join ''p1'', Join ''p2'', moveOf ''p1'' A 0 2, moveOf ''p2'' B 0 0,
                   moveOf ''p1'' A 1 1, moveOf ''p2'' B 0 1]))"
  have accepted:
    "snd (placeMove \<lparr>playerID = ''p1'', gameID = ''game'',
                     move = \<lparr>gamePiece = PieceX, row = 2, col = 0, board = A\<rparr>\<rparr>
           (play [Join ''p1'', Join ''p2'', moveOf ''p1'' A 0 2, moveOf ''p2'' B 0 0,
                  moveOf ''p1'' A 1 1, moveOf ''p2'' B 0 1])) = Inr PieceX"
    by code_simp
  have before: "boardWinners ?g1 A = None" "scoreOf PieceX ?g1 = 0"
    by code_simp+
  have diagonal: "threeInARow (privateBoards ?g1 PieceX A)"
    by code_simp
  have others: "newLines PieceX ?g1 = 1"
    by code_simp
  note detection = win_detection_checks_mover_only [OF reachable_play accepted]
  from detection have eq: "checkForWins ?g1 = spec_checkForWins PieceX ?g1"
    by (rule conjunct1)
  from detection have
    "boardWinners (checkForWins ?g1) A =
       (if boardWinners ?g1 A = None \<and> threeInARow (privateBoards ?g1 PieceX A)
        then Some PieceX else boardWinners ?g1 A)"
    by blast
  with before(1) diagonal have won: "boardWinners (checkForWins ?g1) A = Some PieceX"
    by (simp only: simp_thms if_True)
  from detection have
    "scoreOf PieceX (checkForWins ?g1) = scoreOf PieceX ?g1 + newLines PieceX ?g1"
    by blast
  with before(2) others have one: "scoreOf PieceX (checkForWins ?g1) = 1"
    by (simp only: add_0)
  from eq won one show ?thesis
    by blast
qed

subsection \<open>C9: what a viewer sees\<close>




subsection \<open>C10: what a collision changes\<close>

text \<open>
  C10. In a reachable game, an accepted move onto a cell that the opposing piece has
  played finds the opposing piece recorded as the cell's occupant. It leaves every
  hidden occupancy grid as it was, so the mover's own occupancy of the cell stays false;
  it leaves the three sub-boards as they were, their move lists included, and with them
  the assigned winners and the scores; of the visibility cube it sets the cell and
  changes no other cell. Consequently, in every reachable game the X and the O occupancy
  grids are never both true at a cell, and the piece that came second to a cell, whose
  lines \<open>hasThreeInARow\<close> reads from its occupancy grid alone, does not occupy it.
\<close>

theorem collision_updates_visibility_only:
  assumes "keepsMoves tjoin" "keepsMoves tleave" "reachable tjoin tleave g"
  shows "(\<forall>gm.
            snd (applyMove gm g) = None \<and>
            played g (otherPiece (moverPiece gm g)) (board (move gm)) (row (move gm)) (col (move gm))
            \<longrightarrow>
            map_option gamePiece
              (existingOccupant g (board (move gm)) (row (move gm)) (col (move gm)))
              = Some (otherPiece (moverPiece gm g)) \<and>
            privateBoards (fst (applyMove gm g)) = privateBoards g \<and>
            \<not> cell (privateBoards (fst (applyMove gm g)) (moverPiece gm g) (board (move gm)))
                 (row (move gm)) (col (move gm)) \<and>
            games (fst (applyMove gm g)) = games g \<and>
            boardWinners (fst (applyMove gm g)) = boardWinners g \<and>
            xScore' (fst (applyMove gm g)) = xScore' g \<and>
            oScore' (fst (applyMove gm g)) = oScore' g \<and>
            (\<forall>b r c. inRange r \<and> inRange c \<longrightarrow>
               cell (publiclyVisible (state (fst (applyMove gm g))) b) r c =
                 ((b = board (move gm) \<and> r = row (move gm) \<and> c = col (move gm)) \<or>
                  cell (publiclyVisible (state g) b) r c)))
       \<and> (\<forall>b r c. inRange r \<and> inRange c \<longrightarrow>
             \<not> (cell (privateBoards g PieceX b) r c \<and> cell (privateBoards g PieceO b) r c))
       \<and> (\<forall>b r c occupant. inRange r \<and> inRange c \<and> existingOccupant g b r c = Some occupant
             \<longrightarrow> \<not> cell (privateBoards g (otherPiece (gamePiece occupant)) b) r c)"
proof -
  from assms have inv: "boardInv g"
    by (simp add: reachable_boardInv)
  then have occ: "\<And>p b r c. inRange r \<Longrightarrow> inRange c \<Longrightarrow>
      cell (privateBoards g p b) r c = (map_option gamePiece (existingOccupant g b r c) = Some p)"
    and shape: "invShape g" and log: "invLog g"
    by (simp_all add: boardInv_def invOcc_def)
  have first: "\<forall>gm.
            snd (applyMove gm g) = None \<and>
            played g (otherPiece (moverPiece gm g)) (board (move gm)) (row (move gm)) (col (move gm))
            \<longrightarrow>
            map_option gamePiece
              (existingOccupant g (board (move gm)) (row (move gm)) (col (move gm)))
              = Some (otherPiece (moverPiece gm g)) \<and>
            privateBoards (fst (applyMove gm g)) = privateBoards g \<and>
            \<not> cell (privateBoards (fst (applyMove gm g)) (moverPiece gm g) (board (move gm)))
                 (row (move gm)) (col (move gm)) \<and>
            games (fst (applyMove gm g)) = games g \<and>
            boardWinners (fst (applyMove gm g)) = boardWinners g \<and>
            xScore' (fst (applyMove gm g)) = xScore' g \<and>
            oScore' (fst (applyMove gm g)) = oScore' g \<and>
            (\<forall>b r c. inRange r \<and> inRange c \<longrightarrow>
               cell (publiclyVisible (state (fst (applyMove gm g))) b) r c =
                 ((b = board (move gm) \<and> r = row (move gm) \<and> c = col (move gm)) \<or>
                  cell (publiclyVisible (state g) b) r c))"
  proof (intro allI impI, elim conjE)
    fix gm
    assume acc: "snd (applyMove gm g) = None"
      and opp: "played g (otherPiece (moverPiece gm g)) (board (move gm)) (row (move gm))
                  (col (move gm))"
    from acc obtain p where "snd (placeMove gm g) = Inr p"
      by (cases "snd (placeMove gm g)") (simp_all add: applyMove_eq)
    then have "placeMove gm g = (fst (placeMove gm g), Inr p)"
      by (cases "placeMove gm g") simp
    then have "validateMove gm g = Inr p"
      by (cases rule: placeMove_InrE)
    note rng = validateMove_InrD(5,6) [OF this]
    from played_occupant [OF log rng opp] obtain occupant where
      taken: "existingOccupant g (board (move gm)) (row (move gm)) (col (move gm)) = Some occupant"
      by blast
    note c = applyMove_collision [OF inv acc taken]
    note v = validateMove_InrD [OF c(1)]
    have vis: "\<forall>b r c. inRange r \<and> inRange c \<longrightarrow>
               cell (publiclyVisible (state (fst (applyMove gm g))) b) r c =
                 ((b = board (move gm) \<and> r = row (move gm) \<and> c = col (move gm)) \<or>
                  cell (publiclyVisible (state g) b) r c)"
      using visible_collide [OF shape v(5,6)]
      by (simp add: c(3) checkForGameEnding_frame)
    from c(2) taken v(8) vis show
      "map_option gamePiece
         (existingOccupant g (board (move gm)) (row (move gm)) (col (move gm)))
         = Some (otherPiece (moverPiece gm g)) \<and>
       privateBoards (fst (applyMove gm g)) = privateBoards g \<and>
       \<not> cell (privateBoards (fst (applyMove gm g)) (moverPiece gm g) (board (move gm)))
            (row (move gm)) (col (move gm)) \<and>
       games (fst (applyMove gm g)) = games g \<and>
       boardWinners (fst (applyMove gm g)) = boardWinners g \<and>
       xScore' (fst (applyMove gm g)) = xScore' g \<and>
       oScore' (fst (applyMove gm g)) = oScore' g \<and>
       (\<forall>b r c. inRange r \<and> inRange c \<longrightarrow>
          cell (publiclyVisible (state (fst (applyMove gm g))) b) r c =
            ((b = board (move gm) \<and> r = row (move gm) \<and> c = col (move gm)) \<or>
             cell (publiclyVisible (state g) b) r c))"
      by (simp add: c(3) checkForGameEnding_frame collide_frame privateBoards_collide)
  qed
  have second: "\<forall>b r c. inRange r \<and> inRange c \<longrightarrow>
             \<not> (cell (privateBoards g PieceX b) r c \<and> cell (privateBoards g PieceO b) r c)"
    using occ by auto
  have third: "\<forall>b r c occupant. inRange r \<and> inRange c \<and> existingOccupant g b r c = Some occupant
             \<longrightarrow> \<not> cell (privateBoards g (otherPiece (gamePiece occupant)) b) r c"
  proof (intro allI impI, elim conjE)
    fix b r c occupant
    assume "inRange r" "inRange c" "existingOccupant g b r c = Some occupant"
    with occ [of r c "otherPiece (gamePiece occupant)" b]
    show "\<not> cell (privateBoards g (otherPiece (gamePiece occupant)) b) r c"
      by (cases "gamePiece occupant") (simp_all add: otherPiece_def)
  qed
  from first second third show ?thesis
    by (intro conjI)
qed

theorem collision_updates_visibility_only_witness:
  "privateBoards
       (fst (applyMove \<lparr>playerID = ''p2'', gameID = ''game'',
                         move = \<lparr>gamePiece = PieceO, row = 0, col = 0, board = A\<rparr>\<rparr>
               (play [Join ''p1'', Join ''p2'', moveOf ''p1'' A 0 0])))
     = privateBoards (play [Join ''p1'', Join ''p2'', moveOf ''p1'' A 0 0])
   \<and> games
       (fst (applyMove \<lparr>playerID = ''p2'', gameID = ''game'',
                         move = \<lparr>gamePiece = PieceO, row = 0, col = 0, board = A\<rparr>\<rparr>
               (play [Join ''p1'', Join ''p2'', moveOf ''p1'' A 0 0])))
     = games (play [Join ''p1'', Join ''p2'', moveOf ''p1'' A 0 0])
   \<and> cell (publiclyVisible (state
       (fst (applyMove \<lparr>playerID = ''p2'', gameID = ''game'',
                         move = \<lparr>gamePiece = PieceO, row = 0, col = 0, board = A\<rparr>\<rparr>
               (play [Join ''p1'', Join ''p2'', moveOf ''p1'' A 0 0])))) A) 0 0"
proof -
  let ?g = "play [Join ''p1'', Join ''p2'', moveOf ''p1'' A 0 0]"
  let ?gm = "\<lparr>playerID = ''p2'', gameID = ''game'',
              move = \<lparr>gamePiece = PieceO, row = 0, col = 0, board = A\<rparr>\<rparr>"
  have acc: "snd (applyMove ?gm ?g) = None"
    by code_simp
  have opp: "played ?g (otherPiece (moverPiece ?gm ?g)) (board (move ?gm)) (row (move ?gm))
               (col (move ?gm))"
    by code_simp
  have rng: "inRange 0"
    by (simp add: inRange_def)
  from collision_updates_visibility_only [OF keepsMoves_join keepsMoves_leave
      reachable_play [of "[Join ''p1'', Join ''p2'', moveOf ''p1'' A 0 0]"]]
  have "snd (applyMove ?gm ?g) = None \<and>
        played ?g (otherPiece (moverPiece ?gm ?g)) (board (move ?gm)) (row (move ?gm))
          (col (move ?gm))
        \<longrightarrow>
        privateBoards (fst (applyMove ?gm ?g)) = privateBoards ?g \<and>
        games (fst (applyMove ?gm ?g)) = games ?g \<and>
        (\<forall>b r c. inRange r \<and> inRange c \<longrightarrow>
           cell (publiclyVisible (state (fst (applyMove ?gm ?g))) b) r c =
             ((b = board (move ?gm) \<and> r = row (move ?gm) \<and> c = col (move ?gm)) \<or>
              cell (publiclyVisible (state ?g) b) r c))"
    by blast
  with acc opp rng show ?thesis
    by simp
qed

end
